theory Spec2Isabelle
  imports Main "HOL-Library.Char_ord" "HOL-Library.List_Lexorder"
begin

section \<open>Python strings\<close>

text \<open>
  The analyzer \<^verbatim>\<open>scripts/analyze_skill.py\<close> works on Python \<^verbatim>\<open>str\<close> values.  They are
  modelled as \<^typ>\<open>string\<close>, one \<^typ>\<open>char\<close> per code point, so that \<^const>\<open>length\<close> is
  Python's \<^verbatim>\<open>len\<close>; the model covers text whose code points are below 256.
\<close>

abbreviation NL :: char where "NL \<equiv> CHR 0x0A"

text \<open>\<^verbatim>\<open>s.startswith(p)\<close>\<close>

definition startswith :: "string \<Rightarrow> string \<Rightarrow> bool" where
  "startswith s p = (take (length p) s = p)"

text \<open>\<^verbatim>\<open>sep.join(xs)\<close>\<close>

fun join :: "string \<Rightarrow> string list \<Rightarrow> string" where
  "join sep [] = []"
| "join sep [x] = x"
| "join sep (x # y # ys) = x @ sep @ join sep (y # ys)"

text \<open>
  The first occurrence of a non-empty \<open>pat\<close> in a string: the text before it and the text
  after it.  This is how the lazy \<^verbatim>\<open>.*?\<close> of the source's regular expressions (all used
  with \<^verbatim>\<open>re.DOTALL\<close>) finds the delimiter that ends it.
\<close>

fun find_sub :: "string \<Rightarrow> string \<Rightarrow> (string \<times> string) option" where
  "find_sub pat [] = None"
| "find_sub pat (c # cs) =
     (if startswith (c # cs) pat then Some ([], drop (length pat) (c # cs))
      else map_option (\<lambda>(b, a). (c # b, a)) (find_sub pat cs))"

text \<open>\<^verbatim>\<open>str(n)\<close> of a natural number and of an integer: decimal digits.\<close>

definition digit_char :: "nat \<Rightarrow> char" where
  "digit_char d = ''0123456789'' ! d"

fun str_nat :: "nat \<Rightarrow> string" where
  "str_nat n = (if n < 10 then [digit_char n] else str_nat (n div 10) @ [digit_char (n mod 10)])"

declare str_nat.simps [simp del]

definition str_int :: "int \<Rightarrow> string" where
  "str_int i = (if i < 0 then CHR ''-'' # str_nat (nat (- i)) else str_nat (nat i))"

text \<open>
  \<^verbatim>\<open>s.splitlines()\<close>: a line ends at \<^verbatim>\<open>\n\<close>, \<^verbatim>\<open>\r\<close>, \<^verbatim>\<open>\r\n\<close> (one boundary),
  \<^verbatim>\<open>\x0b\<close>, \<^verbatim>\<open>\x0c\<close>, \<^verbatim>\<open>\x1c\<close>, \<^verbatim>\<open>\x1d\<close>, \<^verbatim>\<open>\x1e\<close> or \<^verbatim>\<open>\x85\<close>; text after the last
  boundary is a line of its own when it is not empty.  The second argument is the line
  read so far.
\<close>

definition is_linebreak :: "char \<Rightarrow> bool" where
  "is_linebreak c = (c \<in> set [CHR 0x0A, CHR 0x0D, CHR 0x0B, CHR 0x0C, CHR 0x1C, CHR 0x1D, CHR 0x1E, CHR 0x85])"

fun splitlines_from :: "string \<Rightarrow> string \<Rightarrow> string list" where
  "splitlines_from cur [] = (if cur = [] then [] else [cur])"
| "splitlines_from cur [c] = (if is_linebreak c then [cur] else [cur @ [c]])"
| "splitlines_from cur (c # d # cs) =
     (if c = CHR 0x0D \<and> d = NL then cur # splitlines_from [] cs
      else if is_linebreak c then cur # splitlines_from [] (d # cs)
      else splitlines_from (cur @ [c]) (d # cs))"

definition splitlines :: "string \<Rightarrow> string list" where
  "splitlines s = splitlines_from [] s"

text \<open>
  \<^verbatim>\<open>s.split()\<close>: the maximal runs of characters that are not white space
  (\<^verbatim>\<open>str.isspace\<close>, for code points below 256).
\<close>

definition is_space :: "char \<Rightarrow> bool" where
  "is_space c = (c \<in> set [CHR 0x09, CHR 0x0A, CHR 0x0B, CHR 0x0C, CHR 0x0D, CHR 0x1C, CHR 0x1D,
     CHR 0x1E, CHR 0x1F, CHR 0x20, CHR 0x85, CHR 0xA0])"

fun split_from :: "string \<Rightarrow> string \<Rightarrow> string list" where
  "split_from cur [] = (if cur = [] then [] else [cur])"
| "split_from cur (c # cs) =
     (if is_space c then (if cur = [] then split_from [] cs else cur # split_from [] cs)
      else split_from (cur @ [c]) cs)"

definition split_ws :: "string \<Rightarrow> string list" where
  "split_ws s = split_from [] s"

text \<open>
  Paths.  \<^verbatim>\<open>os.path.basename(p)\<close> is the text after the last \<^verbatim>\<open>/\<close>.  \<^verbatim>\<open>Path(p).parts\<close>
  of a relative path are its components between slashes, without the empty ones and the
  \<^verbatim>\<open>.\<close> ones; \<^verbatim>\<open>Path(p).name\<close> is the last of them, or the empty string.
\<close>

definition basename :: "string \<Rightarrow> string" where
  "basename p = rev (takeWhile (\<lambda>c. c \<noteq> CHR ''/'') (rev p))"

fun split_on :: "char \<Rightarrow> string \<Rightarrow> string \<Rightarrow> string list" where
  "split_on sep cur [] = [cur]"
| "split_on sep cur (c # cs) =
     (if c = sep then cur # split_on sep [] cs else split_on sep (cur @ [c]) cs)"

definition path_parts :: "string \<Rightarrow> string list" where
  "path_parts p = filter (\<lambda>c. c \<noteq> [] \<and> c \<noteq> ''.'') (split_on (CHR ''/'') [] p)"

definition path_name :: "string \<Rightarrow> string" where
  "path_name p = (case rev (path_parts p) of [] \<Rightarrow> [] | n # _ \<Rightarrow> n)"

lemma str_nat_digit: "n < 10 \<Longrightarrow> str_nat n = [digit_char n]"
  by (simp add: str_nat.simps)

lemma find_sub_decomp: "find_sub pat s = Some (b, a) \<Longrightarrow> s = b @ pat @ a"
proof (induction s arbitrary: b)
  case Nil
  then show ?case by simp
next
  case (Cons c cs)
  show ?case
  proof (cases "startswith (c # cs) pat")
    case True
    with Cons.prems have "b = []" and "a = drop (length pat) (c # cs)" by auto
    moreover from True have "take (length pat) (c # cs) = pat" by (simp add: startswith_def)
    ultimately show ?thesis by (metis append_Nil append_take_drop_id)
  next
    case False
    with Cons.prems obtain b' where "find_sub pat cs = Some (b', a)" and "b = c # b'"
      by (auto split: option.splits)
    with Cons.IH show ?thesis by simp
  qed
qed

lemma find_sub_length: "find_sub pat s = Some (b, a) \<Longrightarrow> length a + length pat \<le> length s"
  by (drule find_sub_decomp) simp

section \<open>The front matter\<close>

subsection \<open>YAML values\<close>

text \<open>
  What \<^verbatim>\<open>yaml.safe_load\<close> builds: \<^verbatim>\<open>None\<close>, a \<^verbatim>\<open>bool\<close>, an \<^verbatim>\<open>int\<close>, a \<^verbatim>\<open>str\<close>,
  a \<^verbatim>\<open>list\<close>, a \<^verbatim>\<open>dict\<close> (its items in order), or another object (a float, a date, bytes,
  a set), which is kept as the three things Python can observe of it here: its truth value
  \<^verbatim>\<open>bool(x)\<close>, \<^verbatim>\<open>str(x)\<close> and \<^verbatim>\<open>repr(x)\<close>.
\<close>

datatype yaml =
    YNone
  | YBool bool
  | YInt int
  | YStr string
  | YList "yaml list"
  | YDict "(yaml \<times> yaml) list"
  | YOther bool string string

text \<open>Python's truth value of an object: \<^verbatim>\<open>not x\<close> is its negation.\<close>

fun truthy :: "yaml \<Rightarrow> bool" where
  "truthy YNone = False"
| "truthy (YBool b) = b"
| "truthy (YInt i) = (i \<noteq> 0)"
| "truthy (YStr s) = (s \<noteq> [])"
| "truthy (YList xs) = (xs \<noteq> [])"
| "truthy (YDict kvs) = (kvs \<noteq> [])"
| "truthy (YOther t s r) = t"

text \<open>
  \<^verbatim>\<open>repr\<close> of a string: in single quotes, or in double quotes when the string has a single
  quote and no double quote; the quote and the backslash are escaped, tab, newline and
  carriage return are written \<^verbatim>\<open>\t\<close>, \<^verbatim>\<open>\n\<close>, \<^verbatim>\<open>\r\<close>, and every other code point that
  is not printable is written \<^verbatim>\<open>\xhh\<close>.
\<close>

definition hex_digit :: "nat \<Rightarrow> char" where
  "hex_digit d = ''0123456789abcdef'' ! d"

definition repr_char :: "char \<Rightarrow> char \<Rightarrow> string" where
  "repr_char q c =
     (if c = q \<or> c = CHR 0x5C then [CHR 0x5C, c]
      else if c = CHR 0x09 then [CHR 0x5C, CHR ''t'']
      else if c = NL then [CHR 0x5C, CHR ''n'']
      else if c = CHR 0x0D then [CHR 0x5C, CHR ''r'']
      else let n = (of_char c :: nat) in
        if n < 32 \<or> n = 127 \<or> (128 \<le> n \<and> n \<le> 160) \<or> n = 173
        then [CHR 0x5C, CHR ''x'', hex_digit (n div 16), hex_digit (n mod 16)]
        else [c])"

definition repr_str :: "string \<Rightarrow> string" where
  "repr_str s =
     (let q = (if CHR 0x27 \<in> set s \<and> CHR 0x22 \<notin> set s then CHR 0x22 else CHR 0x27)
      in q # concat (map (repr_char q) s) @ [q])"

primrec py_repr :: "yaml \<Rightarrow> string" where
  "py_repr YNone = ''None''"
| "py_repr (YBool b) = (if b then ''True'' else ''False'')"
| "py_repr (YInt i) = str_int i"
| "py_repr (YStr s) = repr_str s"
| "py_repr (YList xs) = ''['' @ join '', '' (map py_repr xs) @ '']''"
| "py_repr (YDict kvs) =
     ''{'' @ join '', '' (map (\<lambda>(k, v). k @ '': '' @ v) (map (map_prod py_repr py_repr) kvs)) @ ''}''"
| "py_repr (YOther t s r) = r"

text \<open>\<^verbatim>\<open>str(x)\<close>, which is also what an f-string writes for \<^verbatim>\<open>{x}\<close>.\<close>

definition py_str :: "yaml \<Rightarrow> string" where
  "py_str v = (case v of YStr s \<Rightarrow> s | YOther t s r \<Rightarrow> s | _ \<Rightarrow> py_repr v)"

subsection \<open>The YAML loader\<close>

text \<open>
  \<^verbatim>\<open>yaml.safe_load\<close> is the PyYAML library's, not this repository's: it is a parameter
  \<open>safe_load\<close> of the model.  On a text it returns a value, raises a \<^verbatim>\<open>yaml.YAMLError\<close>
  (with the text \<^verbatim>\<open>str(e)\<close>), or raises an exception of another class, which the
  \<^verbatim>\<open>except yaml.YAMLError\<close> clause of \<^verbatim>\<open>parse_frontmatter\<close> does not catch.
\<close>

datatype load_result = Loaded yaml | Raised_YAMLError string | Raised_other string

type_synonym loader = "string \<Rightarrow> load_result"

text \<open>The exceptions that leave the functions of the analyzer.\<close>

datatype py_exception =
    Uncaught string
  | TypeError
  | AttributeError
  | OSError

subsection \<open>\<^verbatim>\<open>parse_frontmatter\<close>\<close>

text \<open>
  The loop that drops leading comment lines: while the text starts with \<^verbatim>\<open>#\<close>, cut it
  after its first newline; stop when there is none.
\<close>

function strip_comment_lines :: "string \<Rightarrow> string" where
  "strip_comment_lines s =
     (if startswith s ''#'' then
        (case find_sub [NL] s of None \<Rightarrow> s | Some (b, a) \<Rightarrow> strip_comment_lines a)
      else s)"
  by pat_completeness auto

termination
  by (relation "measure length") (auto dest: find_sub_length)

declare strip_comment_lines.simps [simp del]

text \<open>
  \<^verbatim>\<open>re.match(r"^---\n(.*?)\n---", stripped, re.DOTALL)\<close>: the text must start with
  \<^verbatim>\<open>---\n\<close>; the group is the text up to the first \<^verbatim>\<open>\n---\<close> after that.  The result
  is the group and the text after the match.
\<close>

definition match_frontmatter :: "string \<Rightarrow> (string \<times> string) option" where
  "match_frontmatter s =
     (if startswith s (''---'' @ [NL]) then find_sub (NL # ''---'') (drop 4 s) else None)"

definition parse_frontmatter ::
  "loader \<Rightarrow> string \<Rightarrow> py_exception + ((yaml \<times> yaml) list option \<times> string option)" where
  "parse_frontmatter safe_load content =
     (let stripped = strip_comment_lines content in
      if \<not> startswith stripped ''---'' then Inr (None, Some ''No YAML frontmatter found'')
      else case match_frontmatter stripped of
        None \<Rightarrow> Inr (None, Some ''Invalid frontmatter format'')
      | Some (block, rest) \<Rightarrow>
          (case safe_load block of
            Loaded (YDict fm) \<Rightarrow> Inr (Some fm, None)
          | Loaded _ \<Rightarrow> Inr (None, Some ''Frontmatter must be a YAML dictionary'')
          | Raised_YAMLError e \<Rightarrow> Inr (None, Some (''Invalid YAML: '' @ e))
          | Raised_other e \<Rightarrow> Inl (Uncaught e)))"

subsection \<open>\<^verbatim>\<open>extract_markdown_links\<close>\<close>

abbreviation FENCE :: string where "FENCE \<equiv> [CHR 0x60, CHR 0x60, CHR 0x60]"

text \<open>
  \<^verbatim>\<open>re.sub\<close> of a fence, lazily anything, and a fence by the empty string: scanning from
  the left, a fence that has a closing fence after it is cut out with everything up to the
  first closing fence, and the scan goes on after it.
\<close>

function remove_fences :: "string \<Rightarrow> string" where
  "remove_fences [] = []"
| "remove_fences (c # cs) =
     (if startswith (c # cs) FENCE then
        (case find_sub FENCE (drop 3 (c # cs)) of
          Some (b, a) \<Rightarrow> remove_fences a
        | None \<Rightarrow> c # remove_fences cs)
      else c # remove_fences cs)"
  by pat_completeness auto

termination
  by (relation "measure length") (auto dest!: find_sub_length)

text \<open>
  The link pattern \<^verbatim>\<open>\[([^\]]*)\]\(([^)]+)\)\<close> at the start of a text: an opening
  bracket, the link text up to the first closing bracket, an opening parenthesis right
  after it, and a non-empty href up to the first closing parenthesis.  The result is the
  two groups and the text after the match.
\<close>

definition link_at :: "string \<Rightarrow> ((string \<times> string) \<times> string) option" where
  "link_at s =
     (case s of
        [] \<Rightarrow> None
      | c # r \<Rightarrow>
          if c \<noteq> CHR ''['' then None
          else (case dropWhile (\<lambda>x. x \<noteq> CHR '']'') r of
                  x # y # r2 \<Rightarrow>
                    if y \<noteq> CHR ''('' then None
                    else (let href = takeWhile (\<lambda>x. x \<noteq> CHR '')'') r2;
                              r3 = dropWhile (\<lambda>x. x \<noteq> CHR '')'') r2
                          in if href \<noteq> [] \<and> r3 \<noteq> []
                             then Some ((takeWhile (\<lambda>x. x \<noteq> CHR '']'') r, href), tl r3)
                             else None)
                | _ \<Rightarrow> None))"

lemma link_at_shorter: "link_at s = Some (l, rest) \<Longrightarrow> length rest < length s"
proof -
  assume a: "link_at s = Some (l, rest)"
  then obtain c r where s: "s = c # r" by (cases s) (auto simp: link_at_def)
  from a s obtain x y r2 where d: "dropWhile (\<lambda>x. x \<noteq> CHR '']'') r = x # y # r2"
    by (auto simp: link_at_def split: if_splits list.splits)
  from a s d have rest: "rest = tl (dropWhile (\<lambda>x. x \<noteq> CHR '')'') r2)"
    by (auto simp: link_at_def Let_def split: if_splits)
  have "length (dropWhile (\<lambda>x. x \<noteq> CHR '')'') r2) \<le> length r2"
    by (rule length_dropWhile_le)
  moreover have "length (x # y # r2) \<le> length r"
    unfolding d [symmetric] by (rule length_dropWhile_le)
  ultimately show ?thesis using s rest by simp
qed

text \<open>\<^verbatim>\<open>re.findall\<close>: the matches from left to right, each search starting where the
  last match ended.\<close>

function findall_links :: "string \<Rightarrow> (string \<times> string) list" where
  "findall_links [] = []"
| "findall_links (c # cs) =
     (case link_at (c # cs) of
        Some (l, rest) \<Rightarrow> l # findall_links rest
      | None \<Rightarrow> findall_links cs)"
  by pat_completeness auto

termination
  by (relation "measure length") (auto dest: link_at_shorter)

definition extract_markdown_links :: "string \<Rightarrow> (string \<times> string) list" where
  "extract_markdown_links content = findall_links (remove_fences content)"

section \<open>\<^verbatim>\<open>analyze_skill\<close>\<close>

text \<open>
  A check record is the tuple \<^verbatim>\<open>(section, check, status, detail)\<close> that \<^verbatim>\<open>record\<close>
  appends to \<^verbatim>\<open>results\<close>; all four are strings, and \<^verbatim>\<open>detail\<close> defaults to the empty
  string.
\<close>

type_synonym check_record = "string \<times> string \<times> string \<times> string"

abbreviation SQ :: char where "SQ \<equiv> CHR 0x27"

definition section_of :: "check_record \<Rightarrow> string" where
  "section_of r = (case r of (section, check, status, detail) \<Rightarrow> section)"

definition check_of :: "check_record \<Rightarrow> string" where
  "check_of r = (case r of (section, check, status, detail) \<Rightarrow> check)"

definition status_of :: "check_record \<Rightarrow> string" where
  "status_of r = (case r of (section, check, status, detail) \<Rightarrow> status)"

definition detail_of :: "check_record \<Rightarrow> string" where
  "detail_of r = (case r of (section, check, status, detail) \<Rightarrow> detail)"

subsection \<open>The front matter checks\<close>

definition ALLOWED :: "string list" where
  "ALLOWED = [''name'', ''description'', ''license'', ''allowed-tools'', ''metadata'', ''compatibility'']"

text \<open>\<^verbatim>\<open>fm.get(key, "")\<close>\<close>

definition fm_get :: "(yaml \<times> yaml) list \<Rightarrow> string \<Rightarrow> yaml" where
  "fm_get fm key = (case map_of fm (YStr key) of None \<Rightarrow> YStr [] | Some v \<Rightarrow> v)"

text \<open>\<^verbatim>\<open>set(fm.keys()) - ALLOWED\<close>, each key once.\<close>

definition unexpected_keys :: "(yaml \<times> yaml) list \<Rightarrow> yaml list" where
  "unexpected_keys fm = remdups (filter (\<lambda>k. k \<notin> set (map YStr ALLOWED)) (map fst fm))"

text \<open>
  The strings of a list of keys, when all of them are strings.  \<^verbatim>\<open>', '.join(sorted(...))\<close>
  raises \<^verbatim>\<open>TypeError\<close> on a key that is not a string (in \<^verbatim>\<open>sorted\<close> when it compares it
  with a string, in \<^verbatim>\<open>join\<close> otherwise).
\<close>

fun str_items :: "yaml list \<Rightarrow> string list option" where
  "str_items [] = Some []"
| "str_items (YStr s # ks) = map_option (Cons s) (str_items ks)"
| "str_items (_ # ks) = None"

definition check_unexpected :: "(yaml \<times> yaml) list \<Rightarrow> py_exception + check_record" where
  "check_unexpected fm =
     (let unexpected = unexpected_keys fm in
      if unexpected \<noteq> [] then
        (case str_items unexpected of
          None \<Rightarrow> Inl TypeError
        | Some names \<Rightarrow>
            Inr (''FRONTMATTER'', ''No unexpected keys'', ''WARN'',
                 ''Unexpected: '' @ join '', '' (sort names)))
      else Inr (''FRONTMATTER'', ''No unexpected keys'', ''PASS'', []))"

text \<open>
  \<^verbatim>\<open>re.match(r"^[a-z0-9]+(-[a-z0-9]+)*$", s)\<close>, read from left to right; the flag says
  whether the last character ended a non-empty group of \<^verbatim>\<open>[a-z0-9]\<close>.  Python's \<^verbatim>\<open>$\<close>
  matches at the end of the string and also before a newline that is its last character.
\<close>

definition lower_alnum :: "char \<Rightarrow> bool" where
  "lower_alnum c = (let n = (of_char c :: nat) in (97 \<le> n \<and> n \<le> 122) \<or> (48 \<le> n \<and> n \<le> 57))"

fun kebab_from :: "bool \<Rightarrow> string \<Rightarrow> bool" where
  "kebab_from g [] = g"
| "kebab_from g (c # cs) =
     (if lower_alnum c then kebab_from True cs
      else if g \<and> c = CHR ''-'' then kebab_from False cs
      else g \<and> c = NL \<and> cs = [])"

definition kebab_match :: "string \<Rightarrow> bool" where
  "kebab_match s = kebab_from False s"

definition check_name :: "(yaml \<times> yaml) list \<Rightarrow> check_record" where
  "check_name fm =
     (let name = fm_get fm ''name'' in
      if \<not> truthy name then
        (''FRONTMATTER'', ''Name present'', ''FAIL'', ''Missing '' @ SQ # ''name'' @ SQ # '' field'')
      else if \<not> kebab_match (py_str name) then
        (''FRONTMATTER'', ''Name format'', ''FAIL'',
         SQ # py_str name @ SQ # '' is not valid kebab-case'')
      else if length (py_str name) > 64 then
        (''FRONTMATTER'', ''Name length'', ''FAIL'',
         str_nat (length (py_str name)) @ '' chars (max 64)'')
      else (''FRONTMATTER'', ''Name valid'', ''PASS'', py_str name))"

definition check_description :: "(yaml \<times> yaml) list \<Rightarrow> check_record" where
  "check_description fm =
     (let desc = fm_get fm ''description'' in
      if \<not> truthy desc then
        (''FRONTMATTER'', ''Description present'', ''FAIL'',
         ''Missing '' @ SQ # ''description'' @ SQ # '' field'')
      else
        (let desc_len = length (py_str desc) in
         if desc_len < 50 then
           (''FRONTMATTER'', ''Description length'', ''WARN'',
            str_nat desc_len @ '' chars (recommend >= 50)'')
         else if desc_len > 1024 then
           (''FRONTMATTER'', ''Description length'', ''FAIL'',
            str_nat desc_len @ '' chars (max 1024)'')
         else (''FRONTMATTER'', ''Description length'', ''PASS'', str_nat desc_len @ '' chars'')))"

text \<open>
  The front matter section of \<^verbatim>\<open>analyze_skill\<close>.  \<^verbatim>\<open>if err:\<close> tests the error text for
  truth; its \<^verbatim>\<open>else\<close> branch is \<open>field_checks\<close>, where \<^verbatim>\<open>fm.keys()\<close> needs a mapping.
\<close>

definition field_checks :: "(yaml \<times> yaml) list option \<Rightarrow> py_exception + check_record list" where
  "field_checks fm =
     (case fm of
        None \<Rightarrow> Inl AttributeError
      | Some m \<Rightarrow>
          (case check_unexpected m of
             Inl e \<Rightarrow> Inl e
           | Inr r \<Rightarrow>
               Inr [(''FRONTMATTER'', ''Valid frontmatter'', ''PASS'', []), r,
                    check_name m, check_description m]))"

definition frontmatter_checks :: "loader \<Rightarrow> string \<Rightarrow> py_exception + check_record list" where
  "frontmatter_checks safe_load content =
     (case parse_frontmatter safe_load content of
        Inl e \<Rightarrow> Inl e
      | Inr (fm, err) \<Rightarrow>
          (case err of
             Some e \<Rightarrow>
               if e \<noteq> [] then Inr [(''FRONTMATTER'', ''Valid frontmatter'', ''FAIL'', e)]
               else field_checks fm
           | None \<Rightarrow> field_checks fm))"

subsection \<open>The size checks\<close>

text \<open>
  \<^verbatim>\<open>re.match(r"^---\n.*?\n---\n?(.*)", body_content, re.DOTALL)\<close>: the group is what
  follows the closing delimiter and one newline after it, when there is one.
\<close>

definition match_body :: "string \<Rightarrow> string option" where
  "match_body s =
     map_option (\<lambda>(block, rest). if startswith rest [NL] then drop 1 rest else rest)
       (match_frontmatter s)"

definition body_of :: "string \<Rightarrow> string" where
  "body_of content =
     (case match_body (strip_comment_lines content) of Some b \<Rightarrow> b | None \<Rightarrow> content)"

definition check_line_count :: "string \<Rightarrow> check_record" where
  "check_line_count content =
     (let line_count = length (splitlines content) in
      if line_count > 500 then
        (''SIZE'', ''SKILL.md line count'', ''WARN'', str_nat line_count @ '' lines (recommend <= 500)'')
      else (''SIZE'', ''SKILL.md line count'', ''PASS'', str_nat line_count @ '' lines''))"

definition check_word_count :: "string \<Rightarrow> check_record" where
  "check_word_count body =
     (let word_count = length (split_ws body) in
      if word_count > 5000 then
        (''SIZE'', ''Body word count'', ''WARN'', str_nat word_count @ '' words (recommend <= 5000)'')
      else (''SIZE'', ''Body word count'', ''PASS'', str_nat word_count @ '' words''))"

subsection \<open>The package on disk\<close>

text \<open>
  A directory as \<^verbatim>\<open>os.walk\<close> lists it: the names of its files and its subdirectories, in
  the order of the listing.
\<close>

datatype dir = Dir "string list" "(string \<times> dir) list"

text \<open>
  What the analyzer reads of the package at \<^verbatim>\<open>skill_path\<close>:
  \<^item> \<open>skill_md\<close>: the text \<^verbatim>\<open>read_text()\<close> returns for \<^verbatim>\<open>SKILL.md\<close>, \<open>None\<close> when
    \<^verbatim>\<open>skill_md.exists()\<close> is false;
  \<^item> \<open>tree\<close>: the directory tree under \<^verbatim>\<open>skill_path\<close>;
  \<^item> \<open>target_exists href\<close>: what \<^verbatim>\<open>(skill_path / href).exists()\<close> returns, or the
    \<^verbatim>\<open>OSError\<close> that it raises: \<^verbatim>\<open>Path.exists\<close> answers \<^verbatim>\<open>False\<close> for a missing file
    and lets through the other errors of \<^verbatim>\<open>stat\<close>, such as \<^verbatim>\<open>ENAMETOOLONG\<close> for an href
    with a component longer than the file system allows;
  \<^item> \<open>references_dir\<close>: the entries of \<^verbatim>\<open>references/\<close>, each a name and \<^verbatim>\<open>is_file()\<close>,
    \<open>None\<close> when it does not exist or is not a directory;
  \<^item> \<open>scripts_dir\<close>: the entries of \<^verbatim>\<open>scripts/\<close>, each a name, \<^verbatim>\<open>is_file()\<close> and
    \<^verbatim>\<open>os.access(s, os.X_OK)\<close>, \<open>None\<close> when it does not exist or is not a directory.
\<close>

record package =
  skill_md :: "string option"
  tree :: dir
  target_exists :: "string \<Rightarrow> py_exception + bool"
  references_dir :: "(string \<times> bool) list option"
  scripts_dir :: "(string \<times> bool \<times> bool) list option"

definition hidden :: "string \<Rightarrow> bool" where
  "hidden name = startswith name ''.''"

text \<open>
  The walk: in each directory the hidden subdirectories are dropped from the list, the
  files that are not hidden are added with their path relative to \<^verbatim>\<open>skill_path\<close>
  (\<open>prefix\<close> is the path of the directory, with its final slash), then the remaining
  subdirectories are walked in order.
\<close>

fun walk_files :: "string \<Rightarrow> dir \<Rightarrow> string list" where
  "walk_files prefix (Dir files dirs) =
     map (\<lambda>f. prefix @ f) (filter (\<lambda>f. \<not> hidden f) files) @
     concat (map (\<lambda>d. walk_files (prefix @ fst d @ ''/'') (snd d))
       (filter (\<lambda>d. \<not> hidden (fst d)) dirs))"

definition dirs_present :: "string list \<Rightarrow> string list" where
  "dirs_present all_files =
     remdups (map (\<lambda>f. hd (path_parts f)) (filter (\<lambda>f. length (path_parts f) > 1) all_files))"

definition EXTRANEOUS :: "string list" where
  "EXTRANEOUS = [''README.md'', ''INSTALLATION_GUIDE.md'', ''QUICK_REFERENCE.md'', ''CHANGELOG.md'',
     ''CONTRIBUTING.md'', ''SETUP.md'']"

definition files_checks :: "dir \<Rightarrow> check_record list" where
  "files_checks t =
     (let all_files = walk_files [] t;
          present = dirs_present all_files;
          found_extraneous = filter (\<lambda>f. basename f \<in> set EXTRANEOUS) all_files
      in [(''FILES'', ''Directories'', ''INFO'',
             if present \<noteq> [] then join '', '' (sort present) else ''none''),
          (''FILES'', ''Total files'', ''INFO'', str_nat (length all_files)),
          (if found_extraneous \<noteq> [] then
             (''FILES'', ''Extraneous files'', ''WARN'', join '', '' found_extraneous)
           else (''FILES'', ''Extraneous files'', ''PASS'', ''none detected''))])"

subsection \<open>Links, references and scripts\<close>

definition is_external :: "string \<Rightarrow> bool" where
  "is_external href =
     (startswith href ''http://'' \<or> startswith href ''https://'' \<or> startswith href ''#'' \<or>
      startswith href ''mailto:'')"

definition relative_links :: "string \<Rightarrow> (string \<times> string) list" where
  "relative_links body = filter (\<lambda>(text, href). \<not> is_external href) (extract_markdown_links body)"

text \<open>
  The loop over the relative links: the state is \<^verbatim>\<open>(valid_links, broken_links)\<close>.  The
  call \<^verbatim>\<open>target.exists()\<close> is not inside a \<^verbatim>\<open>try\<close>: an exception that it raises ends
  the loop and leaves \<^verbatim>\<open>analyze_skill\<close>.
\<close>

fun count_links :: "(string \<Rightarrow> py_exception + bool) \<Rightarrow> nat \<times> string list \<Rightarrow> (string \<times> string) list \<Rightarrow>
    py_exception + nat \<times> string list" where
  "count_links ex (valid_links, broken_links) [] = Inr (valid_links, broken_links)"
| "count_links ex (valid_links, broken_links) ((text, href) # ls) =
     (case ex href of
        Inl e \<Rightarrow> Inl e
      | Inr found \<Rightarrow>
          if found then count_links ex (valid_links + 1, broken_links) ls
          else count_links ex (valid_links, broken_links @ [href]) ls)"

definition check_links :: "(string \<Rightarrow> py_exception + bool) \<Rightarrow> (string \<times> string) list \<Rightarrow>
    py_exception + check_record" where
  "check_links ex rel =
     (if rel \<noteq> [] then
        (case count_links ex (0, []) rel of
           Inl e \<Rightarrow> Inl e
         | Inr (valid_links, broken_links) \<Rightarrow>
             if broken_links \<noteq> [] then
               Inr (''REFERENCES'', ''Link integrity'', ''FAIL'', ''Broken: '' @ join '', '' broken_links)
             else
               Inr (''REFERENCES'', ''Link integrity'', ''PASS'',
                    str_nat valid_links @ ''/'' @ str_nat (length rel) @ '' links valid''))
      else Inr (''REFERENCES'', ''Link integrity'', ''INFO'', ''No internal links found''))"

definition ref_files :: "(string \<times> bool) list \<Rightarrow> string list" where
  "ref_files entries = map fst (filter (\<lambda>(name, is_file). is_file \<and> \<not> hidden name) entries)"

definition linked_basenames :: "(string \<times> string) list \<Rightarrow> string list" where
  "linked_basenames rel =
     map path_name (filter (\<lambda>href. startswith href ''references/'') (map snd rel))"

definition unlinked :: "(string \<times> bool) list \<Rightarrow> (string \<times> string) list \<Rightarrow> string list" where
  "unlinked entries rel =
     filter (\<lambda>f. f \<notin> set (linked_basenames rel) \<and> (''references/'' @ f) \<notin> set (map snd rel))
       (ref_files entries)"

definition check_references :: "(string \<times> bool) list option \<Rightarrow> (string \<times> string) list \<Rightarrow> check_record" where
  "check_references rd rel =
     (case rd of
        Some entries \<Rightarrow>
          if unlinked entries rel \<noteq> [] then
            (''REFERENCES'', ''Unlinked reference files'', ''WARN'', join '', '' (unlinked entries rel))
          else (''REFERENCES'', ''All references linked'', ''PASS'', [])
      | None \<Rightarrow> (''REFERENCES'', ''References directory'', ''INFO'', ''No references/ directory''))"

definition scripts_checks :: "(string \<times> bool \<times> bool) list option \<Rightarrow> check_record list" where
  "scripts_checks sd =
     (case sd of
        Some entries \<Rightarrow>
          (let scripts = filter (\<lambda>(name, is_file, x_ok). is_file \<and> \<not> hidden name) entries in
           (''SCRIPTS'', ''Scripts found'', ''INFO'', str_nat (length scripts)) #
           map (\<lambda>(name, is_file, x_ok).
                  if x_ok then (''SCRIPTS'', name @ '' executable'', ''PASS'', [])
                  else (''SCRIPTS'', name @ '' executable'', ''WARN'', ''Not marked executable''))
               scripts)
      | None \<Rightarrow> [(''SCRIPTS'', ''Scripts directory'', ''INFO'', ''No scripts/ directory'')])"

subsection \<open>The whole analysis\<close>

text \<open>
  \<^verbatim>\<open>analyze_skill\<close> returns the list \<^verbatim>\<open>results\<close>, or an exception leaves it: one that a
  front matter check raises, or one that the existence test of a link target raises.
  Without \<^verbatim>\<open>SKILL.md\<close> it returns after the first record.
\<close>

definition analyze_skill :: "loader \<Rightarrow> package \<Rightarrow> py_exception + check_record list" where
  "analyze_skill safe_load p =
     (case skill_md p of
        None \<Rightarrow> Inr [(''STRUCTURE'', ''SKILL.md exists'', ''FAIL'', ''SKILL.md not found'')]
      | Some content \<Rightarrow>
          (case frontmatter_checks safe_load content of
             Inl e \<Rightarrow> Inl e
           | Inr fm_records \<Rightarrow>
               (let body = body_of content;
                    rel = relative_links body
                in case check_links (target_exists p) rel of
                     Inl e \<Rightarrow> Inl e
                   | Inr link_record \<Rightarrow>
                       Inr ([(''STRUCTURE'', ''SKILL.md exists'', ''PASS'', [])] @ fm_records @
                            [check_line_count content, check_word_count body] @
                            files_checks (tree p) @
                            [link_record, check_references (references_dir p) rel] @
                            scripts_checks (scripts_dir p)))))"

section \<open>\<^verbatim>\<open>format_report\<close>\<close>

text \<open>
  The state of the loop over \<^verbatim>\<open>results\<close>: the lines written so far, the section of the
  last record (\<open>None\<close> before the first) and the three counters.
\<close>

record report_state =
  lines :: "string list"
  current_section :: "string option"
  pass_count :: nat
  warn_count :: nat
  fail_count :: nat

definition report_step :: "report_state \<Rightarrow> check_record \<Rightarrow> report_state" where
  "report_step st r =
     (case r of (section, check, status, detail) \<Rightarrow>
        (let st1 = (if Some section \<noteq> current_section st then
                      st\<lparr>lines := lines st @ (if current_section st \<noteq> None then [[]] else []) @ [section],
                         current_section := Some section\<rparr>
                    else st);
             st2 = (if status = ''PASS'' then st1\<lparr>pass_count := pass_count st1 + 1\<rparr>
                    else if status = ''WARN'' then st1\<lparr>warn_count := warn_count st1 + 1\<rparr>
                    else if status = ''FAIL'' then st1\<lparr>fail_count := fail_count st1 + 1\<rparr>
                    else st1);
             detail_str = (if detail \<noteq> [] then '': '' @ detail else [])
         in st2\<lparr>lines := lines st2 @ [''  '' @ check @ '': '' @ status @ detail_str]\<rparr>))"

definition summary_line :: "report_state \<Rightarrow> string" where
  "summary_line st =
     ''SUMMARY: '' @ str_nat (fail_count st) @ '' FAIL, '' @ str_nat (warn_count st) @ '' WARN, '' @
     str_nat (pass_count st) @ '' PASS''"

definition format_report :: "string \<Rightarrow> check_record list \<Rightarrow> string" where
  "format_report skill_path results =
     (let st0 = \<lparr>lines = [''=== Skill Analysis: '' @ path_name skill_path @ '' ==='', []],
                 current_section = None, pass_count = 0, warn_count = 0, fail_count = 0\<rparr>;
          st = foldl report_step st0 results
      in join [NL] (lines st @ [[], summary_line st]))"

section \<open>Examples, and the pattern and the report in words\<close>

text \<open>
  The definitions that the statements below use: example documents, loaders and packages,
  and descriptions of the name pattern and of the report that do not follow the code.
\<close>

text \<open>An empty package directory.\<close>

definition empty_package :: package where
  "empty_package = \<lparr>skill_md = None, tree = Dir [] [], target_exists = (\<lambda>href. Inr False),
     references_dir = None, scripts_dir = None\<rparr>"

text \<open>
  A small document and what PyYAML loads from its block, and a document whose block names
  a date that does not exist: PyYAML resolves \<^verbatim>\<open>2020-13-45\<close> as a timestamp and builds it
  with \<^verbatim>\<open>datetime.date(2020, 13, 45)\<close>, which raises \<^verbatim>\<open>ValueError\<close>, not a
  \<^verbatim>\<open>yaml.YAMLError\<close>.
\<close>

definition small_document :: string where
  "small_document = ''---'' @ [NL] @ ''name: my-skill'' @ [NL] @ ''---'' @ [NL] @ ''Body.'' @ [NL]"

definition date_document :: string where
  "date_document = ''---'' @ [NL] @ ''released: 2020-13-45'' @ [NL] @ ''---'' @ [NL]"

definition small_loader :: loader where
  "small_loader block =
     (if block = ''name: my-skill'' then Loaded (YDict [(YStr ''name'', YStr ''my-skill'')])
      else if block = ''released: 2020-13-45'' then
        Raised_other ''ValueError: month must be in 1..12''
      else Raised_YAMLError ''could not parse'')"

text \<open>
  The strings of the pattern, in words: one or more non-empty groups of characters of
  \<^verbatim>\<open>[a-z0-9]\<close>, joined by single hyphens.  \<open>kebab_tail\<close> describes what may follow a
  character of a group.
\<close>

definition kebab_text :: "string \<Rightarrow> bool" where
  "kebab_text s = (\<exists>gs. gs \<noteq> [] \<and> (\<forall>g \<in> set gs. g \<noteq> [] \<and> (\<forall>c \<in> set g. lower_alnum c)) \<and>
     s = join ''-'' gs)"

definition kebab_tail :: "string \<Rightarrow> bool" where
  "kebab_tail s = (\<exists>g t. (\<forall>c \<in> set g. lower_alnum c) \<and> s = g @ t \<and>
     (t = [] \<or> t = [NL] \<or> (\<exists>u. t = CHR ''-'' # u \<and> (kebab_text u \<or> (\<exists>v. u = v @ [NL] \<and> kebab_text v)))))"

text \<open>
  A front matter whose description has \<open>n\<close> characters, a text of \<open>n\<close> words, and the small
  document after a comment line.
\<close>

definition description_of_length :: "nat \<Rightarrow> (yaml \<times> yaml) list" where
  "description_of_length n = [(YStr ''description'', YStr (replicate n (CHR ''d'')))]"

definition words_text :: "nat \<Rightarrow> string" where
  "words_text n = concat (replicate n ''w '')"

definition commented_document :: string where
  "commented_document = ''# header'' @ [NL] @ small_document"

text \<open>
  A package with three links in the body of its \<^verbatim>\<open>SKILL.md\<close>, of which one is external and
  one is broken, and a \<^verbatim>\<open>references/\<close> directory with a linked file, an unlinked file, a
  hidden file and a subdirectory.
\<close>

definition links_body :: string where
  "links_body = ''See [guide](references/guide.md), [site](https://example.org) and [gone](references/missing.md).'' @ [NL]"

definition links_document :: string where
  "links_document = ''---'' @ [NL] @ ''name: my-skill'' @ [NL] @ ''---'' @ [NL] @ links_body"

definition links_entries :: "(string \<times> bool) list" where
  "links_entries = [(''guide.md'', True), (''notes.md'', True), (''.keep'', True), (''old'', False)]"

definition links_package :: package where
  "links_package =
     \<lparr>skill_md = Some links_document,
      tree = Dir [''SKILL.md''] [(''references'', Dir [''guide.md'', ''notes.md'', ''.keep''] [(''old'', Dir [] [])])],
      target_exists = (\<lambda>href. Inr (href = ''references/guide.md'')),
      references_dir = Some links_entries,
      scripts_dir = None\<rparr>"

text \<open>
  A body with a link inside a fenced code block, between two links outside of it, and a
  package with a link whose target the file system refuses to look up.
\<close>

definition fenced_body :: string where
  "fenced_body = ''[a](x.md) '' @ FENCE @ ''[b](y.md)'' @ FENCE @ '' [c](z.md)''"

definition refused_package :: package where
  "refused_package =
     \<lparr>skill_md = Some (''See [notes](notes.md) and [long](long-name.md).'' @ [NL]),
      tree = Dir [''SKILL.md'', ''notes.md''] [],
      target_exists = (\<lambda>href. if href = ''notes.md'' then Inr True else Inl OSError),
      references_dir = None,
      scripts_dir = None\<rparr>"

text \<open>The line that \<^verbatim>\<open>format_report\<close> writes for a record.\<close>

definition render_record :: "check_record \<Rightarrow> string" where
  "render_record r =
     (case r of (section, check, status, detail) \<Rightarrow>
        ''  '' @ check @ '': '' @ status @ (if detail \<noteq> [] then '': '' @ detail else []))"

text \<open>
  The maximal runs of consecutive records with the same section, each with its section.
\<close>

fun runs :: "check_record list \<Rightarrow> (string \<times> check_record list) list" where
  "runs [] = []"
| "runs (r # rs) =
     (case runs rs of
        [] \<Rightarrow> [(section_of r, [r])]
      | (s, g) # bs \<Rightarrow>
          if section_of r = s then (s, r # g) # bs else (section_of r, [r]) # (s, g) # bs)"

text \<open>The lines of the blocks: a section line and its record lines, blocks separated by an
  empty line.\<close>

fun block_lines :: "(string \<times> check_record list) list \<Rightarrow> string list" where
  "block_lines [] = []"
| "block_lines [(s, g)] = s # map render_record g"
| "block_lines ((s, g) # b # bs) = (s # map render_record g) @ [[]] @ block_lines (b # bs)"

text \<open>
  From the words of the specification, for comparison with the code: the sections in the
  order in which they are first seen, and with each section all its records in emission
  order.
\<close>

fun first_seen :: "'a list \<Rightarrow> 'a list" where
  "first_seen [] = []"
| "first_seen (x # xs) = x # filter (\<lambda>y. y \<noteq> x) (first_seen xs)"

definition group_by_section :: "check_record list \<Rightarrow> (string \<times> check_record list) list" where
  "group_by_section rs =
     map (\<lambda>s. (s, filter (\<lambda>r. section_of r = s) rs)) (first_seen (map section_of rs))"

text \<open>The number of records with a given status.\<close>

definition count_status :: "string \<Rightarrow> check_record list \<Rightarrow> nat" where
  "count_status st rs = length (filter (\<lambda>r. status_of r = st) rs)"

text \<open>The lines that the loop of \<^verbatim>\<open>format_report\<close> appends for a list of records, when the
  section of the last record before the list is \<open>cur\<close>.\<close>

fun emitted :: "string option \<Rightarrow> check_record list \<Rightarrow> string list" where
  "emitted cur [] = []"
| "emitted cur (r # rs) =
     (if Some (section_of r) \<noteq> cur then (if cur \<noteq> None then [[]] else []) @ [section_of r] else []) @
     [render_record r] @ emitted (Some (section_of r)) rs"

text \<open>
  Two lists with the same records: in the first the records of the section \<^verbatim>\<open>SIZE\<close> are
  not next to each other, in the second they are.
\<close>

definition interleaved_records :: "check_record list" where
  "interleaved_records =
     [(''SIZE'', ''SKILL.md line count'', ''PASS'', ''12 lines''),
      (''FILES'', ''Total files'', ''INFO'', ''3''),
      (''SIZE'', ''Body word count'', ''WARN'', ''6000 words (recommend <= 5000)'')]"

definition grouped_records :: "check_record list" where
  "grouped_records =
     [(''SIZE'', ''SKILL.md line count'', ''PASS'', ''12 lines''),
      (''SIZE'', ''Body word count'', ''WARN'', ''6000 words (recommend <= 5000)''),
      (''FILES'', ''Total files'', ''INFO'', ''3'')]"




section \<open>Facts about the string functions\<close>

lemma str_nat_0: "str_nat 0 = ''0''"
  by (simp add: str_nat_digit digit_char_def)

lemma str_nat_1: "str_nat (Suc 0) = ''1''"
  by (simp add: str_nat_digit digit_char_def)

lemma startswith_shorter:
  assumes "startswith s (p @ q)"
  shows "startswith s p"
proof -
  from assms have "take (length p + length q) s = p @ q" by (simp add: startswith_def)
  then have "take (length p) (take (length p + length q) s) = take (length p) (p @ q)" by simp
  then show ?thesis by (simp add: startswith_def min_def)
qed

lemma match_frontmatter_startswith:
  "match_frontmatter s = Some (block, rest) \<Longrightarrow> startswith s ''---''"
proof -
  assume "match_frontmatter s = Some (block, rest)"
  then have "startswith s (''---'' @ [NL])"
    by (simp add: match_frontmatter_def split: if_splits)
  then show ?thesis by (rule startswith_shorter)
qed

section \<open>A package without \<^verbatim>\<open>SKILL.md\<close>\<close>

text \<open>
  C1.  When \<^verbatim>\<open>SKILL.md\<close> does not exist, \<^verbatim>\<open>analyze_skill\<close> returns exactly the one record
  \<^verbatim>\<open>("STRUCTURE", "SKILL.md exists", "FAIL", "SKILL.md not found")\<close>, whatever else the
  package holds and whatever the YAML loader would do: no other check has run.  The report
  of that list is the title, the \<^verbatim>\<open>STRUCTURE\<close> block with the one line, and the summary
  \<^verbatim>\<open>1 FAIL, 0 WARN, 0 PASS\<close>.
\<close>

theorem analyze_skill_without_skill_md:
  assumes "skill_md p = None"
  shows "analyze_skill safe_load p =
           Inr [(''STRUCTURE'', ''SKILL.md exists'', ''FAIL'', ''SKILL.md not found'')] \<and>
         format_report skill_path
             [(''STRUCTURE'', ''SKILL.md exists'', ''FAIL'', ''SKILL.md not found'')] =
           join [NL] [''=== Skill Analysis: '' @ path_name skill_path @ '' ==='', [],
                      ''STRUCTURE'',
                      ''  SKILL.md exists: FAIL: SKILL.md not found'',
                      [],
                      ''SUMMARY: 1 FAIL, 0 WARN, 0 PASS'']"
  using assms
  by (simp add: analyze_skill_def format_report_def report_step_def summary_line_def
      str_nat_0 str_nat_1)

theorem analyze_skill_without_skill_md_witness:
  "skill_md empty_package = None \<and>
   analyze_skill (\<lambda>s. Loaded YNone) empty_package =
     Inr [(''STRUCTURE'', ''SKILL.md exists'', ''FAIL'', ''SKILL.md not found'')] \<and>
   format_report ''skills/empty''
       [(''STRUCTURE'', ''SKILL.md exists'', ''FAIL'', ''SKILL.md not found'')] =
     ''=== Skill Analysis: empty ==='' @ [NL, NL] @ ''STRUCTURE'' @ [NL] @
     ''  SKILL.md exists: FAIL: SKILL.md not found'' @ [NL, NL] @
     ''SUMMARY: 1 FAIL, 0 WARN, 0 PASS''"
proof -
  have h: "skill_md empty_package = None" by (simp add: empty_package_def)
  have n: "path_name ''skills/empty'' = ''empty''"
    by (simp add: path_name_def path_parts_def)
  from analyze_skill_without_skill_md [OF h, of "\<lambda>s. Loaded YNone" "''skills/empty''"] h n
  show ?thesis by simp
qed

section \<open>What \<^verbatim>\<open>parse_frontmatter\<close> returns\<close>

text \<open>
  What \<^verbatim>\<open>parse_frontmatter\<close> does for every input string and every behaviour of the
  loader: it returns a mapping and no error, or no mapping and a non-empty error text, or
  lets through an exception that \<^verbatim>\<open>yaml.safe_load\<close> raised on the block and that is not
  a \<^verbatim>\<open>yaml.YAMLError\<close>.  When the block is found: a loaded mapping is returned; a loaded
  value that is not a mapping gives the error \<^verbatim>\<open>Frontmatter must be a YAML dictionary\<close>; a
  \<^verbatim>\<open>yaml.YAMLError\<close> gives the error \<^verbatim>\<open>Invalid YAML: \<close> followed by its message.
\<close>

lemma parse_frontmatter_outcomes:
  "((\<exists>fm. parse_frontmatter safe_load content = Inr (Some fm, None)) \<or>
    (\<exists>err. err \<noteq> [] \<and> parse_frontmatter safe_load content = Inr (None, Some err)) \<or>
    (\<exists>block rest e. match_frontmatter (strip_comment_lines content) = Some (block, rest) \<and>
        safe_load block = Raised_other e \<and>
        parse_frontmatter safe_load content = Inl (Uncaught e))) \<and>
   (\<forall>block rest. match_frontmatter (strip_comment_lines content) = Some (block, rest) \<longrightarrow>
      (\<forall>fm. safe_load block = Loaded (YDict fm) \<longrightarrow>
         parse_frontmatter safe_load content = Inr (Some fm, None)) \<and>
      (\<forall>v. safe_load block = Loaded v \<and> (\<forall>fm. v \<noteq> YDict fm) \<longrightarrow>
         parse_frontmatter safe_load content =
           Inr (None, Some ''Frontmatter must be a YAML dictionary'')) \<and>
      (\<forall>msg. safe_load block = Raised_YAMLError msg \<longrightarrow>
         parse_frontmatter safe_load content = Inr (None, Some (''Invalid YAML: '' @ msg)))) \<and>
   ((\<forall>block e. safe_load block \<noteq> Raised_other e) \<longrightarrow>
      (\<forall>x. parse_frontmatter safe_load content \<noteq> Inl x))"
proof (intro conjI allI impI)
  show "(\<exists>fm. parse_frontmatter safe_load content = Inr (Some fm, None)) \<or>
    (\<exists>err. err \<noteq> [] \<and> parse_frontmatter safe_load content = Inr (None, Some err)) \<or>
    (\<exists>block rest e. match_frontmatter (strip_comment_lines content) = Some (block, rest) \<and>
        safe_load block = Raised_other e \<and>
        parse_frontmatter safe_load content = Inl (Uncaught e))"
    by (auto simp: parse_frontmatter_def Let_def split: option.splits load_result.splits yaml.splits)
next
  fix block rest fm
  assume "match_frontmatter (strip_comment_lines content) = Some (block, rest)"
    and "safe_load block = Loaded (YDict fm)"
  then show "parse_frontmatter safe_load content = Inr (Some fm, None)"
    by (simp add: parse_frontmatter_def match_frontmatter_startswith)
next
  fix block rest v
  assume "match_frontmatter (strip_comment_lines content) = Some (block, rest)"
    and "safe_load block = Loaded v \<and> (\<forall>fm. v \<noteq> YDict fm)"
  then show "parse_frontmatter safe_load content =
      Inr (None, Some ''Frontmatter must be a YAML dictionary'')"
    by (cases v) (simp_all add: parse_frontmatter_def match_frontmatter_startswith)
next
  fix block rest msg
  assume "match_frontmatter (strip_comment_lines content) = Some (block, rest)"
    and "safe_load block = Raised_YAMLError msg"
  then show "parse_frontmatter safe_load content = Inr (None, Some (''Invalid YAML: '' @ msg))"
    by (simp add: parse_frontmatter_def match_frontmatter_startswith)
next
  fix x
  assume "\<forall>block e. safe_load block \<noteq> Raised_other e"
  then show "parse_frontmatter safe_load content \<noteq> Inl x"
    by (auto simp: parse_frontmatter_def Let_def split: option.splits load_result.splits yaml.splits)
qed

lemma small_document_match:
  "match_frontmatter (strip_comment_lines small_document) = Some (''name: my-skill'', NL # ''Body.'' @ [NL])"
  by (simp add: small_document_def strip_comment_lines.simps match_frontmatter_def startswith_def)

lemma small_document_parse:
  "parse_frontmatter small_loader small_document =
     Inr (Some [(YStr ''name'', YStr ''my-skill'')], None)"
proof -
  have l: "small_loader ''name: my-skill'' = Loaded (YDict [(YStr ''name'', YStr ''my-skill'')])"
    by (simp add: small_loader_def)
  from parse_frontmatter_outcomes [of small_loader small_document] small_document_match l
  show ?thesis by blast
qed

text \<open>
  C3.  The claim says that no exception leaves \<^verbatim>\<open>parse_frontmatter\<close>: every failure of the
  loader is to come back as no mapping and an error text.  The \<^verbatim>\<open>except\<close> clause names
  \<^verbatim>\<open>yaml.YAMLError\<close> only.  On the document whose front matter is
  \<^verbatim>\<open>released: 2020-13-45\<close> the loader raises \<^verbatim>\<open>ValueError\<close>, and \<^verbatim>\<open>parse_frontmatter\<close>
  does not return: the exception leaves it.
\<close>

theorem parse_frontmatter_propagates:
  "parse_frontmatter small_loader date_document =
     Inl (Uncaught ''ValueError: month must be in 1..12'')"
  by (simp add: parse_frontmatter_def small_loader_def date_document_def
      strip_comment_lines.simps match_frontmatter_def startswith_def)

section \<open>The name and description checks\<close>

lemma kebab_from_chars:
  "kebab_from g s \<Longrightarrow> c \<in> set s \<Longrightarrow> lower_alnum c \<or> c = CHR ''-'' \<or> c = NL"
  by (induction s arbitrary: g) (auto split: if_splits)

lemma hyphen_not_alnum: "\<not> lower_alnum (CHR ''-'')"
  by (simp add: lower_alnum_def)

lemma kebab_from_double_hyphen: "\<not> kebab_from g (a @ ''--'' @ b)"
  by (induction a arbitrary: g) (auto simp: hyphen_not_alnum)

lemma kebab_from_trailing_hyphen: "\<not> kebab_from g (t @ ''-'')"
  by (induction t arbitrary: g) (auto simp: hyphen_not_alnum)

lemma upper_not_kebab:
  assumes "c \<in> set s" and "(65 \<le> (of_char c :: nat) \<and> (of_char c :: nat) \<le> 90) \<or> c = CHR ''_''"
  shows "\<not> kebab_match s"
proof
  assume "kebab_match s"
  with assms(1) have "lower_alnum c \<or> c = CHR ''-'' \<or> c = NL"
    unfolding kebab_match_def using kebab_from_chars by blast
  with assms(2) show False by (auto simp: lower_alnum_def)
qed

lemma join_Cons: "gs \<noteq> [] \<Longrightarrow> join sep (g # gs) = g @ sep @ join sep gs"
  by (cases gs) auto

lemma kebab_from_group:
  "\<forall>c \<in> set g. lower_alnum c \<Longrightarrow> g \<noteq> [] \<Longrightarrow> kebab_from b (g @ r) = kebab_from True r"
proof (induction g arbitrary: b)
  case Nil
  then show ?case by simp
next
  case (Cons c g)
  then show ?case by (cases "g = []") auto
qed

lemma kebab_from_join:
  assumes "gs \<noteq> []" and "\<forall>g \<in> set gs. g \<noteq> [] \<and> (\<forall>c \<in> set g. lower_alnum c)"
  shows "kebab_from False (join ''-'' gs @ r) = kebab_from True r"
  using assms
proof (induction gs rule: list_nonempty_induct)
  case (single g)
  then show ?case by (simp add: kebab_from_group)
next
  case (cons g gs)
  have "kebab_from False (join ''-'' (g # gs) @ r) = kebab_from False (g @ (CHR ''-'' # join ''-'' gs @ r))"
    using cons.hyps by (simp add: join_Cons)
  also have "\<dots> = kebab_from True (CHR ''-'' # join ''-'' gs @ r)"
    using cons.prems by (intro kebab_from_group) auto
  also have "\<dots> = kebab_from False (join ''-'' gs @ r)"
    by (simp add: hyphen_not_alnum)
  also have "\<dots> = kebab_from True r" using cons by simp
  finally show ?case .
qed

lemma kebab_text_Cons:
  assumes "lower_alnum c" and "kebab_tail r"
  shows "kebab_text (c # r) \<or> (\<exists>v. c # r = v @ [NL] \<and> kebab_text v)"
proof -
  from assms(2) obtain g t where g: "\<forall>c \<in> set g. lower_alnum c" and r: "r = g @ t"
    and t: "t = [] \<or> t = [NL] \<or> (\<exists>u. t = CHR ''-'' # u \<and> (kebab_text u \<or> (\<exists>v. u = v @ [NL] \<and> kebab_text v)))"
    unfolding kebab_tail_def by blast
  have one: "kebab_text (c # g)"
    unfolding kebab_text_def using assms(1) g by (intro exI [of _ "[c # g]"]) auto
  from t consider "t = []" | "t = [NL]"
    | u where "t = CHR ''-'' # u" "kebab_text u"
    | u v where "t = CHR ''-'' # u" "u = v @ [NL]" "kebab_text v"
    by blast
  then show ?thesis
  proof cases
    case 1
    with r one show ?thesis by simp
  next
    case 2
    with r one have "c # r = (c # g) @ [NL] \<and> kebab_text (c # g)" by simp
    then show ?thesis by blast
  next
    case 3
    from 3(2) obtain gs where gs: "gs \<noteq> []" "\<forall>g \<in> set gs. g \<noteq> [] \<and> (\<forall>c \<in> set g. lower_alnum c)"
      "u = join ''-'' gs"
      unfolding kebab_text_def by blast
    have "c # r = join ''-'' ((c # g) # gs)" using r 3(1) gs by (simp add: join_Cons)
    moreover have "\<forall>h \<in> set ((c # g) # gs). h \<noteq> [] \<and> (\<forall>c \<in> set h. lower_alnum c)"
      using gs(2) g assms(1) by auto
    ultimately have "kebab_text (c # r)" unfolding kebab_text_def by blast
    then show ?thesis by blast
  next
    case 4
    from 4(3) obtain gs where gs: "gs \<noteq> []" "\<forall>g \<in> set gs. g \<noteq> [] \<and> (\<forall>c \<in> set g. lower_alnum c)"
      "v = join ''-'' gs"
      unfolding kebab_text_def by blast
    have "c # r = join ''-'' ((c # g) # gs) @ [NL]" using r 4(1,2) gs by (simp add: join_Cons)
    moreover have "\<forall>h \<in> set ((c # g) # gs). h \<noteq> [] \<and> (\<forall>c \<in> set h. lower_alnum c)"
      using gs(2) g assms(1) by auto
    ultimately have "\<exists>v. c # r = v @ [NL] \<and> kebab_text v" unfolding kebab_text_def by blast
    then show ?thesis by blast
  qed
qed

lemma kebab_from_shape:
  "kebab_from b s \<Longrightarrow>
     (if b then kebab_tail s else kebab_text s \<or> (\<exists>v. s = v @ [NL] \<and> kebab_text v))"
proof (induction s arbitrary: b)
  case Nil
  then show ?case by (auto simp: kebab_tail_def)
next
  case (Cons c cs)
  show ?case
  proof (cases "lower_alnum c")
    case True
    with Cons.prems have "kebab_from True cs" by simp
    with Cons.IH [of True] have tail: "kebab_tail cs" by simp
    show ?thesis
    proof (cases b)
      case False
      with kebab_text_Cons [OF True tail] show ?thesis by simp
    next
      case b: True
      from tail obtain g t where "\<forall>c \<in> set g. lower_alnum c" "cs = g @ t"
        "t = [] \<or> t = [NL] \<or> (\<exists>u. t = CHR ''-'' # u \<and> (kebab_text u \<or> (\<exists>v. u = v @ [NL] \<and> kebab_text v)))"
        unfolding kebab_tail_def by blast
      with True have "kebab_tail (c # cs)"
        unfolding kebab_tail_def by (intro exI [of _ "c # g"] exI [of _ t]) auto
      with b show ?thesis by simp
    qed
  next
    case False
    show ?thesis
    proof (cases "b \<and> c = CHR ''-''")
      case True
      with False Cons.prems have "kebab_from False cs" by simp
      with Cons.IH [of False] have "kebab_text cs \<or> (\<exists>v. cs = v @ [NL] \<and> kebab_text v)" by simp
      then have "kebab_tail (c # cs)"
        unfolding kebab_tail_def using True by (intro exI [of _ "[]"] exI [of _ "c # cs"]) auto
      with True show ?thesis by simp
    next
      case n: False
      with False Cons.prems have e: "b \<and> c = NL \<and> cs = []" by auto
      have "kebab_tail [NL]"
        unfolding kebab_tail_def by (intro exI [of _ "[]"] exI [of _ "[NL]"]) simp
      with e show ?thesis by simp
    qed
  qed
qed

lemma kebab_match_iff:
  "kebab_match s \<longleftrightarrow> kebab_text s \<or> (\<exists>v. s = v @ [NL] \<and> kebab_text v)"
proof
  assume "kebab_match s"
  then show "kebab_text s \<or> (\<exists>v. s = v @ [NL] \<and> kebab_text v)"
    unfolding kebab_match_def using kebab_from_shape [of False s] by simp
next
  assume "kebab_text s \<or> (\<exists>v. s = v @ [NL] \<and> kebab_text v)"
  then show "kebab_match s"
  proof
    assume "kebab_text s"
    then obtain gs where "gs \<noteq> []" "\<forall>g \<in> set gs. g \<noteq> [] \<and> (\<forall>c \<in> set g. lower_alnum c)"
      "s = join ''-'' gs"
      unfolding kebab_text_def by blast
    with kebab_from_join [of gs "[]"] show ?thesis by (simp add: kebab_match_def)
  next
    assume "\<exists>v. s = v @ [NL] \<and> kebab_text v"
    then obtain gs where "gs \<noteq> []" "\<forall>g \<in> set gs. g \<noteq> [] \<and> (\<forall>c \<in> set g. lower_alnum c)"
      "s = join ''-'' gs @ [NL]"
      unfolding kebab_text_def by blast
    with kebab_from_join [of gs "[NL]"] show ?thesis
      by (simp add: kebab_match_def lower_alnum_def)
  qed
qed

text \<open>
  C4.  The name is \<^verbatim>\<open>fm.get("name", "")\<close>.  A missing or empty name gives \<^verbatim>\<open>FAIL\<close> with
  \<^verbatim>\<open>Missing 'name' field\<close>.  A name that is present (true in Python's sense) and whose
  text \<^verbatim>\<open>str(name)\<close> does not match the pattern gives \<^verbatim>\<open>FAIL\<close> with the value in quotes;
  a matching name of more than 64 characters gives \<^verbatim>\<open>FAIL\<close> with its length; a matching
  name of at most 64 characters gives \<^verbatim>\<open>PASS\<close> with the name.  For a string the text is
  the string itself and it is present when it is not empty.  No string matches the pattern
  that has an uppercase letter or an underscore, a doubled hyphen, a leading hyphen or a
  trailing hyphen.  The strings that match are the hyphen-separated groups of
  \<^verbatim>\<open>[a-z0-9]\<close>, and these followed by one final newline (\<^verbatim>\<open>$\<close> of \<^verbatim>\<open>re.match\<close> also
  matches before a newline that ends the string).
\<close>

theorem check_name_cases:
  fixes fm :: "(yaml \<times> yaml) list"
  defines "name \<equiv> fm_get fm ''name''"
  shows "(map_of fm (YStr ''name'') = None \<or> map_of fm (YStr ''name'') = Some (YStr []) \<longrightarrow>
           check_name fm =
             (''FRONTMATTER'', ''Name present'', ''FAIL'', ''Missing '' @ SQ # ''name'' @ SQ # '' field'')) \<and>
         (truthy name \<and> \<not> kebab_match (py_str name) \<longrightarrow>
           check_name fm =
             (''FRONTMATTER'', ''Name format'', ''FAIL'', SQ # py_str name @ SQ # '' is not valid kebab-case'')) \<and>
         (truthy name \<and> kebab_match (py_str name) \<and> length (py_str name) > 64 \<longrightarrow>
           check_name fm =
             (''FRONTMATTER'', ''Name length'', ''FAIL'', str_nat (length (py_str name)) @ '' chars (max 64)'')) \<and>
         (truthy name \<and> kebab_match (py_str name) \<and> length (py_str name) \<le> 64 \<longrightarrow>
           check_name fm = (''FRONTMATTER'', ''Name valid'', ''PASS'', py_str name)) \<and>
         (\<forall>s. map_of fm (YStr ''name'') = Some (YStr s) \<longrightarrow>
            py_str name = s \<and> truthy name = (s \<noteq> [])) \<and>
         (\<forall>s. ((\<exists>c \<in> set s. (65 \<le> (of_char c :: nat) \<and> (of_char c :: nat) \<le> 90) \<or> c = CHR ''_'') \<or>
               (\<exists>a b. s = a @ ''--'' @ b) \<or> (\<exists>t. s = CHR ''-'' # t) \<or> (\<exists>t. s = t @ ''-'')) \<longrightarrow>
              \<not> kebab_match s) \<and>
         (\<forall>s. kebab_match s = (kebab_text s \<or> (\<exists>v. s = v @ [NL] \<and> kebab_text v)))"
proof (intro conjI allI impI)
  assume "map_of fm (YStr ''name'') = None \<or> map_of fm (YStr ''name'') = Some (YStr [])"
  then have "\<not> truthy (fm_get fm ''name'')" by (auto simp: fm_get_def)
  then show "check_name fm =
      (''FRONTMATTER'', ''Name present'', ''FAIL'', ''Missing '' @ SQ # ''name'' @ SQ # '' field'')"
    by (simp add: check_name_def)
next
  assume "truthy name \<and> \<not> kebab_match (py_str name)"
  then show "check_name fm =
      (''FRONTMATTER'', ''Name format'', ''FAIL'', SQ # py_str name @ SQ # '' is not valid kebab-case'')"
    by (simp add: check_name_def name_def)
next
  assume "truthy name \<and> kebab_match (py_str name) \<and> length (py_str name) > 64"
  then show "check_name fm =
      (''FRONTMATTER'', ''Name length'', ''FAIL'', str_nat (length (py_str name)) @ '' chars (max 64)'')"
    by (simp add: check_name_def name_def)
next
  assume "truthy name \<and> kebab_match (py_str name) \<and> length (py_str name) \<le> 64"
  then show "check_name fm = (''FRONTMATTER'', ''Name valid'', ''PASS'', py_str name)"
    by (simp add: check_name_def name_def)
next
  fix s assume "map_of fm (YStr ''name'') = Some (YStr s)"
  then show "py_str name = s" and "truthy name = (s \<noteq> [])"
    by (simp_all add: name_def fm_get_def py_str_def)
next
  fix s
  assume "(\<exists>c \<in> set s. (65 \<le> (of_char c :: nat) \<and> (of_char c :: nat) \<le> 90) \<or> c = CHR ''_'') \<or>
               (\<exists>a b. s = a @ ''--'' @ b) \<or> (\<exists>t. s = CHR ''-'' # t) \<or> (\<exists>t. s = t @ ''-'')"
  then show "\<not> kebab_match s"
    using upper_not_kebab [of _ s] kebab_from_double_hyphen [of False]
      kebab_from_trailing_hyphen [of False]
    by (auto simp: kebab_match_def hyphen_not_alnum)
next
  fix s
  show "kebab_match s = (kebab_text s \<or> (\<exists>v. s = v @ [NL] \<and> kebab_text v))"
    by (rule kebab_match_iff)
qed

lemma kebab_from_replicate: "lower_alnum c \<Longrightarrow> kebab_from g (replicate n c) = (g \<or> 0 < n)"
  by (induction n arbitrary: g) auto

theorem check_name_cases_witness:
  "check_name [] =
     (''FRONTMATTER'', ''Name present'', ''FAIL'', ''Missing '' @ SQ # ''name'' @ SQ # '' field'') \<and>
   check_name [(YStr ''name'', YStr ''My_Skill'')] =
     (''FRONTMATTER'', ''Name format'', ''FAIL'', SQ # ''My_Skill'' @ SQ # '' is not valid kebab-case'') \<and>
   check_name [(YStr ''name'', YStr (replicate 65 (CHR ''a'')))] =
     (''FRONTMATTER'', ''Name length'', ''FAIL'', ''65 chars (max 64)'') \<and>
   check_name [(YStr ''name'', YStr ''my-skill'')] =
     (''FRONTMATTER'', ''Name valid'', ''PASS'', ''my-skill'') \<and>
   \<not> kebab_match ''my--skill''"
proof -
  have a: "lower_alnum (CHR ''a'')" by (simp add: lower_alnum_def)
  have 1: "check_name [] =
     (''FRONTMATTER'', ''Name present'', ''FAIL'', ''Missing '' @ SQ # ''name'' @ SQ # '' field'')"
    using check_name_cases [of "[]"] by simp
  have "truthy (fm_get [(YStr ''name'', YStr ''My_Skill'')] ''name'') \<and>
      \<not> kebab_match (py_str (fm_get [(YStr ''name'', YStr ''My_Skill'')] ''name''))"
    by (simp add: fm_get_def py_str_def kebab_match_def lower_alnum_def)
  with check_name_cases [of "[(YStr ''name'', YStr ''My_Skill'')]"]
  have 2: "check_name [(YStr ''name'', YStr ''My_Skill'')] =
     (''FRONTMATTER'', ''Name format'', ''FAIL'', SQ # ''My_Skill'' @ SQ # '' is not valid kebab-case'')"
    by (simp add: fm_get_def py_str_def)
  have "truthy (fm_get [(YStr ''name'', YStr (replicate 65 (CHR ''a'')))] ''name'') \<and>
      kebab_match (py_str (fm_get [(YStr ''name'', YStr (replicate 65 (CHR ''a'')))] ''name'')) \<and>
      length (py_str (fm_get [(YStr ''name'', YStr (replicate 65 (CHR ''a'')))] ''name'')) > 64"
    by (simp add: fm_get_def py_str_def kebab_match_def kebab_from_replicate a)
  with check_name_cases [of "[(YStr ''name'', YStr (replicate 65 (CHR ''a'')))]"]
  have 3: "check_name [(YStr ''name'', YStr (replicate 65 (CHR ''a'')))] =
     (''FRONTMATTER'', ''Name length'', ''FAIL'', ''65 chars (max 64)'')"
    by (simp add: fm_get_def py_str_def str_nat.simps digit_char_def)
  have "truthy (fm_get [(YStr ''name'', YStr ''my-skill'')] ''name'') \<and>
      kebab_match (py_str (fm_get [(YStr ''name'', YStr ''my-skill'')] ''name'')) \<and>
      length (py_str (fm_get [(YStr ''name'', YStr ''my-skill'')] ''name'')) \<le> 64"
    by (simp add: fm_get_def py_str_def kebab_match_def lower_alnum_def)
  with check_name_cases [of "[(YStr ''name'', YStr ''my-skill'')]"]
  have 4: "check_name [(YStr ''name'', YStr ''my-skill'')] =
     (''FRONTMATTER'', ''Name valid'', ''PASS'', ''my-skill'')"
    by (simp add: fm_get_def py_str_def)
  have "''my--skill'' = ''my'' @ ''--'' @ ''skill''" by simp
  with check_name_cases [of "[]"] have 5: "\<not> kebab_match ''my--skill''" by blast
  from 1 2 3 4 5 show ?thesis by blast
qed

text \<open>
  C5.  The description is \<^verbatim>\<open>fm.get("description", "")\<close> and \<open>d\<close> the length of its text.
  A description that is missing or empty gives \<^verbatim>\<open>FAIL\<close>; one that is present gives
  \<^verbatim>\<open>WARN\<close> when \<open>d < 50\<close>, \<^verbatim>\<open>PASS\<close> with the count when \<open>50 \<le> d \<le> 1024\<close>, and
  \<^verbatim>\<open>FAIL\<close> when \<open>d > 1024\<close>.  A missing description has \<open>d = 0\<close>, and a description
  that is a string is present exactly when \<open>d > 0\<close>, so that for these the status is a
  function of \<open>d\<close> alone.
\<close>

theorem check_description_by_length:
  fixes fm :: "(yaml \<times> yaml) list"
  defines "desc \<equiv> fm_get fm ''description''"
  defines "d \<equiv> length (py_str desc)"
  shows "(\<not> truthy desc \<longrightarrow>
           check_description fm =
             (''FRONTMATTER'', ''Description present'', ''FAIL'',
              ''Missing '' @ SQ # ''description'' @ SQ # '' field'')) \<and>
         (truthy desc \<and> d < 50 \<longrightarrow>
           check_description fm =
             (''FRONTMATTER'', ''Description length'', ''WARN'', str_nat d @ '' chars (recommend >= 50)'')) \<and>
         (truthy desc \<and> 50 \<le> d \<and> d \<le> 1024 \<longrightarrow>
           check_description fm =
             (''FRONTMATTER'', ''Description length'', ''PASS'', str_nat d @ '' chars'')) \<and>
         (truthy desc \<and> 1024 < d \<longrightarrow>
           check_description fm =
             (''FRONTMATTER'', ''Description length'', ''FAIL'', str_nat d @ '' chars (max 1024)'')) \<and>
         (map_of fm (YStr ''description'') = None \<longrightarrow> \<not> truthy desc \<and> d = 0) \<and>
         (\<forall>s. map_of fm (YStr ''description'') = Some (YStr s) \<longrightarrow>
            d = length s \<and> truthy desc = (0 < d))"
proof (intro conjI allI impI)
  assume "\<not> truthy desc"
  then show "check_description fm =
             (''FRONTMATTER'', ''Description present'', ''FAIL'',
              ''Missing '' @ SQ # ''description'' @ SQ # '' field'')"
    by (simp add: check_description_def desc_def)
next
  assume "truthy desc \<and> d < 50"
  then show "check_description fm =
             (''FRONTMATTER'', ''Description length'', ''WARN'', str_nat d @ '' chars (recommend >= 50)'')"
    by (simp add: check_description_def desc_def d_def)
next
  assume "truthy desc \<and> 50 \<le> d \<and> d \<le> 1024"
  then show "check_description fm =
             (''FRONTMATTER'', ''Description length'', ''PASS'', str_nat d @ '' chars'')"
    by (simp add: check_description_def desc_def d_def Let_def)
next
  assume "truthy desc \<and> 1024 < d"
  then show "check_description fm =
             (''FRONTMATTER'', ''Description length'', ''FAIL'', str_nat d @ '' chars (max 1024)'')"
    by (simp add: check_description_def desc_def d_def Let_def)
next
  assume "map_of fm (YStr ''description'') = None"
  then show "\<not> truthy desc" and "d = 0"
    by (simp_all add: desc_def d_def fm_get_def py_str_def)
next
  fix s assume "map_of fm (YStr ''description'') = Some (YStr s)"
  then show "d = length s" and "truthy desc = (0 < d)"
    by (simp_all add: desc_def d_def fm_get_def py_str_def)
qed

lemma description_of_length_get:
  "fm_get (description_of_length n) ''description'' = YStr (replicate n (CHR ''d''))"
  by (simp add: description_of_length_def fm_get_def)

theorem check_description_by_length_witness:
  "check_description (description_of_length 0) =
     (''FRONTMATTER'', ''Description present'', ''FAIL'',
      ''Missing '' @ SQ # ''description'' @ SQ # '' field'') \<and>
   check_description (description_of_length 49) =
     (''FRONTMATTER'', ''Description length'', ''WARN'', ''49 chars (recommend >= 50)'') \<and>
   check_description (description_of_length 50) =
     (''FRONTMATTER'', ''Description length'', ''PASS'', ''50 chars'') \<and>
   check_description (description_of_length 1024) =
     (''FRONTMATTER'', ''Description length'', ''PASS'', ''1024 chars'') \<and>
   check_description (description_of_length 1025) =
     (''FRONTMATTER'', ''Description length'', ''FAIL'', ''1025 chars (max 1024)'')"
proof -
  note ev = description_of_length_get py_str_def str_nat.simps digit_char_def
  have 1: "check_description (description_of_length 0) =
     (''FRONTMATTER'', ''Description present'', ''FAIL'',
      ''Missing '' @ SQ # ''description'' @ SQ # '' field'')"
    using check_description_by_length [of "description_of_length 0"] by (simp add: ev)
  have 2: "check_description (description_of_length 49) =
     (''FRONTMATTER'', ''Description length'', ''WARN'', ''49 chars (recommend >= 50)'')"
    using check_description_by_length [of "description_of_length 49"] by (simp add: ev)
  have 3: "check_description (description_of_length 50) =
     (''FRONTMATTER'', ''Description length'', ''PASS'', ''50 chars'')"
    using check_description_by_length [of "description_of_length 50"] by (simp add: ev)
  have 4: "check_description (description_of_length 1024) =
     (''FRONTMATTER'', ''Description length'', ''PASS'', ''1024 chars'')"
    using check_description_by_length [of "description_of_length 1024"] by (simp add: ev)
  have 5: "check_description (description_of_length 1025) =
     (''FRONTMATTER'', ''Description length'', ''FAIL'', ''1025 chars (max 1024)'')"
    using check_description_by_length [of "description_of_length 1025"] by (simp add: ev)
  from 1 2 3 4 5 show ?thesis by blast
qed

lemma map_of_without_key: "map_of (filter (\<lambda>kv. fst kv \<noteq> k) fm) k = None"
  by (induction fm) auto

text \<open>
  C10.  The two checks test the truth of the value, not the presence of the key: when
  \<^verbatim>\<open>name\<close> (or \<^verbatim>\<open>description\<close>) is present with a value that is false in Python's sense,
  the check gives the \<^verbatim>\<open>FAIL\<close> record of the missing field, the same record as for the
  mapping without that key.  \<^verbatim>\<open>None\<close>, \<^verbatim>\<open>False\<close>, \<^verbatim>\<open>0\<close>, the empty string and the empty
  list are such values.
\<close>

theorem falsy_value_as_absent:
  "(\<forall>v. map_of fm (YStr ''name'') = Some v \<and> \<not> truthy v \<longrightarrow>
      check_name fm =
        (''FRONTMATTER'', ''Name present'', ''FAIL'', ''Missing '' @ SQ # ''name'' @ SQ # '' field'') \<and>
      check_name fm = check_name (filter (\<lambda>kv. fst kv \<noteq> YStr ''name'') fm)) \<and>
   (\<forall>v. map_of fm (YStr ''description'') = Some v \<and> \<not> truthy v \<longrightarrow>
      check_description fm =
        (''FRONTMATTER'', ''Description present'', ''FAIL'',
         ''Missing '' @ SQ # ''description'' @ SQ # '' field'') \<and>
      check_description fm = check_description (filter (\<lambda>kv. fst kv \<noteq> YStr ''description'') fm)) \<and>
   \<not> truthy YNone \<and> \<not> truthy (YBool False) \<and> \<not> truthy (YInt 0) \<and> \<not> truthy (YStr []) \<and>
   \<not> truthy (YList [])"
  by (simp add: check_name_def check_description_def fm_get_def map_of_without_key)

theorem falsy_value_as_absent_witness:
  "check_name [(YStr ''name'', YInt 0), (YStr ''description'', YList [])] =
     (''FRONTMATTER'', ''Name present'', ''FAIL'', ''Missing '' @ SQ # ''name'' @ SQ # '' field'') \<and>
   check_name [(YStr ''name'', YInt 0), (YStr ''description'', YList [])] =
     check_name [(YStr ''description'', YList [])] \<and>
   check_description [(YStr ''name'', YInt 0), (YStr ''description'', YList [])] =
     (''FRONTMATTER'', ''Description present'', ''FAIL'',
      ''Missing '' @ SQ # ''description'' @ SQ # '' field'') \<and>
   check_description [(YStr ''name'', YInt 0), (YStr ''description'', YList [])] =
     check_description [(YStr ''name'', YInt 0)]"
  using falsy_value_as_absent [of "[(YStr ''name'', YInt 0), (YStr ''description'', YList [])]"]
  by (simp add: check_name_def check_description_def fm_get_def)

section \<open>The size checks and the body\<close>

lemma find_sub_first:
  assumes "s = b @ pat @ a"
    and "\<forall>b' a'. s = b' @ pat @ a' \<longrightarrow> length b \<le> length b'"
  shows "pat \<noteq> [] \<Longrightarrow> find_sub pat s = Some (b, a)"
  using assms
proof (induction s arbitrary: b)
  case Nil
  then show ?case by simp
next
  case (Cons c cs)
  show ?case
  proof (cases "startswith (c # cs) pat")
    case True
    then have "c # cs = [] @ pat @ drop (length pat) (c # cs)"
      by (simp add: startswith_def) (metis append_take_drop_id)
    with Cons.prems(3) have "length b \<le> length ([] :: string)" by blast
    then have b: "b = []" by simp
    with Cons.prems(2) have "a = drop (length pat) (c # cs)" by (metis append_Nil append_eq_conv_conj)
    with b True show ?thesis by simp
  next
    case False
    have "b \<noteq> []"
    proof
      assume "b = []"
      with Cons.prems(2) have "take (length pat) (c # cs) = pat" by (metis append_Nil append_eq_conv_conj)
      with False show False by (simp add: startswith_def)
    qed
    then obtain b2 where b: "b = c # b2" using Cons.prems(2) by (cases b) auto
    with Cons.prems(2) have cs: "cs = b2 @ pat @ a" by simp
    have "\<forall>b' a'. cs = b' @ pat @ a' \<longrightarrow> length b2 \<le> length b'"
    proof (intro allI impI)
      fix b' a' assume "cs = b' @ pat @ a'"
      then have "c # cs = (c # b') @ pat @ a'" by simp
      with Cons.prems(3) have "length b \<le> length (c # b')" by blast
      with b show "length b2 \<le> length b'" by simp
    qed
    with Cons.IH [OF Cons.prems(1) cs] have "find_sub pat cs = Some (b2, a)" by blast
    with False b show ?thesis by simp
  qed
qed

lemma splitlines_from_NL: "splitlines_from [] (NL # s) = [] # splitlines_from [] s"
  by (cases s) (simp_all add: is_linebreak_def)

lemma splitlines_newlines: "splitlines (replicate n NL) = replicate n []"
  unfolding splitlines_def by (induction n) (simp_all add: splitlines_from_NL)

lemma split_from_word: "split_from [] (''w '' @ s) = ''w'' # split_from [] s"
  by (simp add: is_space_def)

lemma split_ws_words: "split_ws (words_text n) = replicate n ''w''"
  unfolding split_ws_def words_text_def
proof (induction n)
  case 0
  show ?case by simp
next
  case (Suc n)
  have "concat (replicate (Suc n) ''w '') = ''w '' @ concat (replicate n ''w '')" by simp
  then show ?case using Suc by (simp only: split_from_word) simp
qed

lemma strip_comment_lines_other: "\<not> startswith s ''#'' \<Longrightarrow> strip_comment_lines s = s"
  by (simp add: strip_comment_lines.simps)

lemma words_text_cases: "words_text n = [] \<or> (\<exists>t. words_text n = CHR ''w'' # t)"
  by (cases n) (simp_all add: words_text_def)

lemma body_of_words: "body_of (words_text n) = words_text n"
proof -
  from words_text_cases [of n] have 1: "\<not> startswith (words_text n) ''#''"
    and 2: "\<not> startswith (words_text n) (''---'' @ [NL])"
    by (auto simp: startswith_def)
  from 1 have "strip_comment_lines (words_text n) = words_text n" by (rule strip_comment_lines_other)
  with 2 show ?thesis by (simp add: body_of_def match_body_def match_frontmatter_def)
qed

text \<open>
  C6.  The line-count check gives \<^verbatim>\<open>WARN\<close> exactly when \<^verbatim>\<open>len(content.splitlines())\<close>
  is more than 500 and \<^verbatim>\<open>PASS\<close> otherwise; the word-count check gives \<^verbatim>\<open>WARN\<close> exactly
  when \<^verbatim>\<open>len(body.split())\<close> is more than 5000 and \<^verbatim>\<open>PASS\<close> otherwise; neither gives
  \<^verbatim>\<open>FAIL\<close>.  When the text after the leading comment lines has no front matter block, the
  body is the whole raw document.  When it is \<^verbatim>\<open>---\n\<close>, a block, the first \<^verbatim>\<open>\n---\<close>
  after the opening line, and a rest, the body is the rest without one leading newline.
  A leading comment line is a line that starts with \<^verbatim>\<open>#\<close>; it is dropped with its
  newline, and a text that does not start with \<^verbatim>\<open>#\<close> is kept as it is.
\<close>

theorem size_checks_boundaries:
  "status_of (check_line_count content) =
     (if length (splitlines content) > 500 then ''WARN'' else ''PASS'') \<and>
   status_of (check_word_count (body_of content)) =
     (if length (split_ws (body_of content)) > 5000 then ''WARN'' else ''PASS'') \<and>
   status_of (check_line_count content) \<noteq> ''FAIL'' \<and>
   status_of (check_word_count (body_of content)) \<noteq> ''FAIL'' \<and>
   (match_frontmatter (strip_comment_lines content) = None \<longrightarrow> body_of content = content) \<and>
   (\<forall>block rest.
      strip_comment_lines content = ''---'' @ [NL] @ block @ (NL # ''---'') @ rest \<and>
      (\<forall>b' a'. block @ (NL # ''---'') @ rest = b' @ (NL # ''---'') @ a' \<longrightarrow> length block \<le> length b') \<longrightarrow>
      body_of content = (if startswith rest [NL] then drop 1 rest else rest)) \<and>
   (\<forall>line rest. content = ''#'' @ line @ [NL] @ rest \<and> NL \<notin> set line \<longrightarrow>
      strip_comment_lines content = strip_comment_lines rest) \<and>
   (\<not> startswith content ''#'' \<longrightarrow> strip_comment_lines content = content)"
proof (intro conjI allI impI)
  show "status_of (check_line_count content) =
     (if length (splitlines content) > 500 then ''WARN'' else ''PASS'')"
    by (simp add: check_line_count_def status_of_def Let_def)
  show "status_of (check_word_count (body_of content)) =
     (if length (split_ws (body_of content)) > 5000 then ''WARN'' else ''PASS'')"
    by (simp add: check_word_count_def status_of_def Let_def)
  show "status_of (check_line_count content) \<noteq> ''FAIL''"
    by (simp add: check_line_count_def status_of_def Let_def)
  show "status_of (check_word_count (body_of content)) \<noteq> ''FAIL''"
    by (simp add: check_word_count_def status_of_def Let_def)
next
  assume "match_frontmatter (strip_comment_lines content) = None"
  then show "body_of content = content" by (simp add: body_of_def match_body_def)
next
  fix block rest
  assume a: "strip_comment_lines content = ''---'' @ [NL] @ block @ (NL # ''---'') @ rest \<and>
      (\<forall>b' a'. block @ (NL # ''---'') @ rest = b' @ (NL # ''---'') @ a' \<longrightarrow> length block \<le> length b')"
  then have "find_sub (NL # ''---'') (block @ (NL # ''---'') @ rest) = Some (block, rest)"
    by (intro find_sub_first) auto
  with a have "match_frontmatter (strip_comment_lines content) = Some (block, rest)"
    by (simp add: match_frontmatter_def startswith_def)
  then show "body_of content = (if startswith rest [NL] then drop 1 rest else rest)"
    by (simp add: body_of_def match_body_def)
next
  fix line rest
  assume a: "content = ''#'' @ line @ [NL] @ rest \<and> NL \<notin> set line"
  have "find_sub [NL] (''#'' @ line @ [NL] @ rest) = Some (''#'' @ line, rest)"
  proof (rule find_sub_first)
    show "''#'' @ line @ [NL] @ rest = (''#'' @ line) @ [NL] @ rest" by simp
    show "\<forall>b' a'. ''#'' @ line @ [NL] @ rest = b' @ [NL] @ a' \<longrightarrow> length (''#'' @ line) \<le> length b'"
    proof (intro allI impI)
      fix b' a' assume e: "''#'' @ line @ [NL] @ rest = b' @ [NL] @ a'"
      show "length (''#'' @ line) \<le> length b'"
      proof (rule ccontr)
        assume "\<not> length (''#'' @ line) \<le> length b'"
        then have l: "length b' < length (''#'' @ line)" by simp
        from e have "(''#'' @ line) @ [NL] @ rest = b' @ [NL] @ a'" by simp
        then have "(''#'' @ line) ! length b' = (b' @ [NL] @ a') ! length b'"
          using l by (metis nth_append)
        then have "(''#'' @ line) ! length b' = NL" by simp
        with l have "NL \<in> set (''#'' @ line)" by (metis nth_mem)
        with a show False by simp
      qed
    qed
    show "[NL] \<noteq> []" by simp
  qed
  with a show "strip_comment_lines content = strip_comment_lines rest"
    by (subst strip_comment_lines.simps) (simp add: startswith_def)
next
  assume "\<not> startswith content ''#''"
  then show "strip_comment_lines content = content" by (rule strip_comment_lines_other)
qed

lemma find_sub_minimal:
  "find_sub pat s = Some (b, a) \<Longrightarrow> s = b' @ pat @ a' \<Longrightarrow> length b \<le> length b'"
proof (induction s arbitrary: b b')
  case Nil
  then show ?case by simp
next
  case (Cons c cs)
  show ?case
  proof (cases "startswith (c # cs) pat")
    case True
    with Cons.prems(1) show ?thesis by simp
  next
    case False
    with Cons.prems(1) obtain b2 where f: "find_sub pat cs = Some (b2, a)" and b: "b = c # b2"
      by (auto split: option.splits)
    have "b' \<noteq> []"
    proof
      assume "b' = []"
      with Cons.prems(2) have "take (length pat) (c # cs) = pat" by simp
      with False show False by (simp add: startswith_def)
    qed
    then obtain b3 where b': "b' = c # b3" using Cons.prems(2) by (cases b') auto
    with Cons.prems(2) have "cs = b3 @ pat @ a'" by simp
    with Cons.IH [OF f] have "length b2 \<le> length b3" by blast
    with b b' show ?thesis by simp
  qed
qed

theorem size_checks_boundaries_witness:
  "length (splitlines (replicate 500 NL)) = 500 \<and>
   status_of (check_line_count (replicate 500 NL)) = ''PASS'' \<and>
   length (splitlines (replicate 501 NL)) = 501 \<and>
   status_of (check_line_count (replicate 501 NL)) = ''WARN'' \<and>
   body_of (words_text 5000) = words_text 5000 \<and>
   length (split_ws (words_text 5000)) = 5000 \<and>
   status_of (check_word_count (body_of (words_text 5000))) = ''PASS'' \<and>
   length (split_ws (words_text 5001)) = 5001 \<and>
   status_of (check_word_count (body_of (words_text 5001))) = ''WARN'' \<and>
   strip_comment_lines commented_document = small_document \<and>
   body_of commented_document = ''Body.'' @ [NL]"
proof -
  have 1: "status_of (check_line_count (replicate 500 NL)) = ''PASS''"
    using size_checks_boundaries [of "replicate 500 NL"] by (simp add: splitlines_newlines)
  have 2: "status_of (check_line_count (replicate 501 NL)) = ''WARN''"
    using size_checks_boundaries [of "replicate 501 NL"] by (simp add: splitlines_newlines)
  have 3: "status_of (check_word_count (body_of (words_text 5000))) = ''PASS''"
    using size_checks_boundaries [of "words_text 5000"] by (simp add: body_of_words split_ws_words)
  have 4: "status_of (check_word_count (body_of (words_text 5001))) = ''WARN''"
    using size_checks_boundaries [of "words_text 5001"] by (simp add: body_of_words split_ws_words)
  have n: "\<not> startswith small_document ''#''"
    by (simp add: small_document_def startswith_def)
  have "commented_document = ''#'' @ '' header'' @ [NL] @ small_document \<and> NL \<notin> set '' header''"
    by (simp add: commented_document_def)
  with size_checks_boundaries [of commented_document]
  have "strip_comment_lines commented_document = strip_comment_lines small_document" by blast
  moreover from size_checks_boundaries [of small_document] n
  have "strip_comment_lines small_document = small_document" by blast
  ultimately have 5: "strip_comment_lines commented_document = small_document" by simp
  have m: "find_sub (NL # ''---'') (''name: my-skill'' @ (NL # ''---'') @ (NL # ''Body.'' @ [NL])) =
      Some (''name: my-skill'', NL # ''Body.'' @ [NL])"
    by (simp add: startswith_def)
  have "strip_comment_lines commented_document =
      ''---'' @ [NL] @ ''name: my-skill'' @ (NL # ''---'') @ (NL # ''Body.'' @ [NL]) \<and>
    (\<forall>b' a'. ''name: my-skill'' @ (NL # ''---'') @ (NL # ''Body.'' @ [NL]) = b' @ (NL # ''---'') @ a'
        \<longrightarrow> length ''name: my-skill'' \<le> length b')"
    using 5 find_sub_minimal [OF m] by (simp add: small_document_def)
  with size_checks_boundaries [of commented_document]
  have "body_of commented_document =
      (if startswith (NL # ''Body.'' @ [NL]) [NL] then drop 1 (NL # ''Body.'' @ [NL])
       else NL # ''Body.'' @ [NL])"
    by blast
  then have 6: "body_of commented_document = ''Body.'' @ [NL]" by (simp add: startswith_def)
  from 1 2 3 4 5 6 show ?thesis by (simp add: splitlines_newlines body_of_words split_ws_words)
qed

section \<open>Links and references\<close>

lemma count_links_returns:
  "\<forall>h \<in> set (map snd rel). \<exists>found. ex h = Inr found \<Longrightarrow>
   count_links ex (v, b) rel =
     Inr (v + length (filter (\<lambda>h. ex h = Inr True) (map snd rel)),
          b @ filter (\<lambda>h. ex h = Inr False) (map snd rel))"
  by (induction rel arbitrary: v b) auto

lemma count_links_raises:
  "(t, h) \<in> set rel \<Longrightarrow> ex h = Inl e \<Longrightarrow> \<exists>e'. count_links ex (v, b) rel = Inl e'"
  by (induction rel arbitrary: v b) (auto split: sum.splits)

lemma check_links_returns:
  assumes "\<forall>h \<in> set (map snd rel). \<exists>found. ex h = Inr found"
  shows "check_links ex rel =
     Inr (if rel = [] then (''REFERENCES'', ''Link integrity'', ''INFO'', ''No internal links found'')
          else if filter (\<lambda>h. ex h = Inr False) (map snd rel) = [] then
            (''REFERENCES'', ''Link integrity'', ''PASS'',
             str_nat (length rel) @ ''/'' @ str_nat (length rel) @ '' links valid'')
          else (''REFERENCES'', ''Link integrity'', ''FAIL'',
                ''Broken: '' @ join '', '' (filter (\<lambda>h. ex h = Inr False) (map snd rel))))"
proof -
  have v: "length (filter (\<lambda>h. ex h = Inr True) (map snd rel)) = length rel"
    if "filter (\<lambda>h. ex h = Inr False) (map snd rel) = []"
  proof -
    from that have "\<forall>h \<in> set (map snd rel). ex h \<noteq> Inr False" by (simp add: filter_empty_conv)
    with assms have "\<forall>h \<in> set (map snd rel). ex h = Inr True" by fastforce
    then have "filter (\<lambda>h. ex h = Inr True) (map snd rel) = map snd rel" by (simp only: filter_True)
    then show ?thesis by simp
  qed
  show ?thesis
    using v by (simp add: check_links_def count_links_returns [OF assms])
qed

lemma check_links_raises:
  "(t, h) \<in> set rel \<Longrightarrow> ex h = Inl e \<Longrightarrow> \<exists>e'. check_links ex rel = Inl e'"
  using count_links_raises [of t h rel ex e 0 "[]"] by (auto simp: check_links_def)

lemma check_links_record:
  "check_links ex rel = Inr k \<Longrightarrow>
     section_of k = ''REFERENCES'' \<and> check_of k = ''Link integrity'' \<and>
     status_of k \<in> {''PASS'', ''FAIL'', ''INFO''}"
  by (auto simp: check_links_def section_of_def check_of_def status_of_def
      split: if_splits sum.splits prod.splits)

lemma remove_fences_plain: "CHR 0x60 \<notin> set a \<Longrightarrow> remove_fences (a @ s) = a @ remove_fences s"
  by (induction a) (auto simp: startswith_def)

lemma remove_fences_fence:
  assumes "\<forall>b' a'. x @ FENCE @ rest = b' @ FENCE @ a' \<longrightarrow> length x \<le> length b'"
  shows "remove_fences (FENCE @ x @ FENCE @ rest) = remove_fences rest"
proof -
  have "find_sub FENCE (x @ FENCE @ rest) = Some (x, rest)"
    by (rule find_sub_first) (use assms in auto)
  then show ?thesis by (simp add: startswith_def)
qed

lemma extract_markdown_links_fence:
  assumes "CHR 0x60 \<notin> set a"
    and "\<forall>b' a'. x @ FENCE @ rest = b' @ FENCE @ a' \<longrightarrow> length x \<le> length b'"
  shows "extract_markdown_links (a @ FENCE @ x @ FENCE @ rest) = extract_markdown_links (a @ rest)"
proof -
  have "remove_fences (a @ (FENCE @ x @ FENCE @ rest)) = a @ remove_fences (FENCE @ x @ FENCE @ rest)"
    by (rule remove_fences_plain [OF assms(1)])
  also have "\<dots> = a @ remove_fences rest"
    by (simp only: remove_fences_fence [OF assms(2)])
  also have "\<dots> = remove_fences (a @ rest)"
    by (rule remove_fences_plain [OF assms(1), symmetric])
  finally show ?thesis by (simp only: extract_markdown_links_def)
qed

lemma split_on_nonempty: "split_on sep cur s \<noteq> []"
  by (induction s arbitrary: cur) auto

lemma split_on_plain: "sep \<notin> set f \<Longrightarrow> split_on sep cur f = [cur @ f]"
  by (induction f arbitrary: cur) auto

lemma split_on_last: "sep \<notin> set f \<Longrightarrow> last (split_on sep cur (d @ sep # f)) = f"
  by (induction d arbitrary: cur) (auto simp: split_on_plain split_on_nonempty)

lemma last_filter: "xs \<noteq> [] \<Longrightarrow> P (last xs) \<Longrightarrow> filter P xs \<noteq> [] \<and> last (filter P xs) = last xs"
  by (induction xs) (auto split: if_splits)

lemma path_name_last:
  assumes "CHR ''/'' \<notin> set f" and "f \<noteq> []" and "f \<noteq> ''.''"
  shows "path_name (d @ ''/'' @ f) = f"
proof -
  let ?xs = "split_on (CHR ''/'') [] (d @ ''/'' @ f)"
  have "last (split_on (CHR ''/'') [] (d @ CHR ''/'' # f)) = f" using assms(1) by (rule split_on_last)
  then have l: "last ?xs = f" by simp
  have "path_parts (d @ ''/'' @ f) \<noteq> [] \<and> last (path_parts (d @ ''/'' @ f)) = last ?xs"
    unfolding path_parts_def
  proof (rule last_filter)
    show "?xs \<noteq> []" by (rule split_on_nonempty)
    show "last ?xs \<noteq> [] \<and> last ?xs \<noteq> ''.''" unfolding l using assms(2,3) by simp
  qed
  then have n: "path_parts (d @ ''/'' @ f) \<noteq> []" and e: "last (path_parts (d @ ''/'' @ f)) = f"
    using l by simp_all
  from n obtain y ys where r: "rev (path_parts (d @ ''/'' @ f)) = y # ys"
    by (cases "rev (path_parts (d @ ''/'' @ f))") auto
  then have "path_parts (d @ ''/'' @ f) = rev ys @ [y]" by (simp add: rev_swap)
  with e have "y = f" by simp
  with r show ?thesis by (simp add: path_name_def)
qed

lemma link_at_link:
  assumes "CHR '']'' \<notin> set t" and "CHR '')'' \<notin> set h" and "h \<noteq> []"
  shows "link_at (''['' @ t @ '']('' @ h @ '')'' @ rest) = Some ((t, h), rest)"
proof -
  have 1: "dropWhile (\<lambda>x. x \<noteq> CHR '']'') (t @ '']('' @ h @ '')'' @ rest) = '']('' @ h @ '')'' @ rest"
    using assms(1) by (subst dropWhile_append2) auto
  have 2: "takeWhile (\<lambda>x. x \<noteq> CHR '']'') (t @ '']('' @ h @ '')'' @ rest) = t"
    using assms(1) by (subst takeWhile_append2) auto
  have 3: "dropWhile (\<lambda>x. x \<noteq> CHR '')'') (h @ '')'' @ rest) = '')'' @ rest"
    using assms(2) by (subst dropWhile_append2) auto
  have 4: "takeWhile (\<lambda>x. x \<noteq> CHR '')'') (h @ '')'' @ rest) = h"
    using assms(2) by (subst takeWhile_append2) auto
  from 1 2 3 4 assms(3) show ?thesis by (simp add: link_at_def)
qed

lemma frontmatter_checks_sections:
  "frontmatter_checks safe_load content = Inr rs \<Longrightarrow> r \<in> set rs \<Longrightarrow> section_of r = ''FRONTMATTER''"
  by (auto simp: frontmatter_checks_def field_checks_def check_unexpected_def check_name_def
      check_description_def section_of_def Let_def
      split: sum.splits option.splits if_splits prod.splits)

lemma files_checks_sections: "r \<in> set (files_checks t) \<Longrightarrow> section_of r = ''FILES''"
  by (auto simp: files_checks_def section_of_def Let_def split: if_splits)

lemma scripts_checks_sections: "r \<in> set (scripts_checks sd) \<Longrightarrow> section_of r = ''SCRIPTS''"
  by (auto simp: scripts_checks_def section_of_def Let_def split: option.splits if_splits)

lemma check_references_section: "section_of (check_references rd rel) = ''REFERENCES''"
  by (simp add: check_references_def section_of_def split: option.splits)

lemma analyze_skill_records:
  assumes "skill_md p = Some content" and "analyze_skill safe_load p = Inr rs"
  shows "\<exists>fm_records k. frontmatter_checks safe_load content = Inr fm_records \<and>
     check_links (target_exists p) (relative_links (body_of content)) = Inr k \<and>
     rs = [(''STRUCTURE'', ''SKILL.md exists'', ''PASS'', [])] @ fm_records @
          [check_line_count content, check_word_count (body_of content)] @
          files_checks (tree p) @
          [k, check_references (references_dir p) (relative_links (body_of content))] @
          scripts_checks (scripts_dir p)"
  using assms by (auto simp: analyze_skill_def Let_def split: sum.splits)


lemma filter_none: "(\<And>x. x \<in> set xs \<Longrightarrow> \<not> P x) \<Longrightarrow> filter P xs = []"
  by (induction xs) auto

lemma analyze_skill_references_section:
  assumes "skill_md p = Some content" and "analyze_skill safe_load p = Inr rs"
  shows "\<exists>k. check_links (target_exists p) (relative_links (body_of content)) = Inr k \<and>
     filter (\<lambda>r. section_of r = ''REFERENCES'') rs =
       [k, check_references (references_dir p) (relative_links (body_of content))]"
proof -
  from analyze_skill_records [OF assms] obtain fm_records k where
    f: "frontmatter_checks safe_load content = Inr fm_records" and
    k: "check_links (target_exists p) (relative_links (body_of content)) = Inr k" and
    rs: "rs = [(''STRUCTURE'', ''SKILL.md exists'', ''PASS'', [])] @ fm_records @
          [check_line_count content, check_word_count (body_of content)] @
          files_checks (tree p) @
          [k, check_references (references_dir p) (relative_links (body_of content))] @
          scripts_checks (scripts_dir p)"
    by blast
  have 1: "filter (\<lambda>r. section_of r = ''REFERENCES'') fm_records = []"
    by (rule filter_none) (auto dest: frontmatter_checks_sections [OF f])
  have 2: "filter (\<lambda>r. section_of r = ''REFERENCES'') (files_checks (tree p)) = []"
    by (rule filter_none) (auto dest: files_checks_sections)
  have 3: "filter (\<lambda>r. section_of r = ''REFERENCES'') (scripts_checks (scripts_dir p)) = []"
    by (rule filter_none) (auto dest: scripts_checks_sections)
  have 4: "section_of (check_line_count content) \<noteq> ''REFERENCES''"
    "section_of (check_word_count (body_of content)) \<noteq> ''REFERENCES''"
    "section_of (''STRUCTURE'', ''SKILL.md exists'', ''PASS'', []) \<noteq> ''REFERENCES''"
    by (simp_all add: check_line_count_def check_word_count_def section_of_def Let_def)
  have 5: "section_of k = ''REFERENCES''" using check_links_record [OF k] by simp
  have "filter (\<lambda>r. section_of r = ''REFERENCES'') rs =
       [k, check_references (references_dir p) (relative_links (body_of content))]"
    unfolding rs by (simp add: 1 2 3 4 5 check_references_section)
  with k show ?thesis by blast
qed

lemma links_body_links:
  "extract_markdown_links links_body =
     [(''guide'', ''references/guide.md''), (''site'', ''https://example.org''),
      (''gone'', ''references/missing.md'')]"
  by (simp add: extract_markdown_links_def links_body_def startswith_def link_at_def)

lemma links_body_relative:
  "relative_links links_body =
     [(''guide'', ''references/guide.md''), (''gone'', ''references/missing.md'')]"
  by (simp add: relative_links_def links_body_links is_external_def startswith_def)

lemma links_document_body: "body_of links_document = links_body"
  by (simp add: body_of_def match_body_def match_frontmatter_def links_document_def
      strip_comment_lines.simps startswith_def)

lemma small_loader_name: "small_loader ''name: my-skill'' = Loaded (YDict [(YStr ''name'', YStr ''my-skill'')])"
  by (simp add: small_loader_def)

lemma links_document_frontmatter:
  "frontmatter_checks small_loader links_document =
     Inr [(''FRONTMATTER'', ''Valid frontmatter'', ''PASS'', []),
          (''FRONTMATTER'', ''No unexpected keys'', ''PASS'', []),
          (''FRONTMATTER'', ''Name valid'', ''PASS'', ''my-skill''),
          (''FRONTMATTER'', ''Description present'', ''FAIL'',
           ''Missing '' @ SQ # ''description'' @ SQ # '' field'')]"
  by (simp add: frontmatter_checks_def parse_frontmatter_def field_checks_def check_unexpected_def
      unexpected_keys_def ALLOWED_def check_name_def check_description_def fm_get_def py_str_def
      kebab_match_def lower_alnum_def
      match_frontmatter_def links_document_def links_body_def
      strip_comment_lines.simps startswith_def small_loader_name)

lemma links_package_analysis:
  "analyze_skill small_loader links_package =
     Inr [(''STRUCTURE'', ''SKILL.md exists'', ''PASS'', []),
          (''FRONTMATTER'', ''Valid frontmatter'', ''PASS'', []),
          (''FRONTMATTER'', ''No unexpected keys'', ''PASS'', []),
          (''FRONTMATTER'', ''Name valid'', ''PASS'', ''my-skill''),
          (''FRONTMATTER'', ''Description present'', ''FAIL'',
           ''Missing '' @ SQ # ''description'' @ SQ # '' field''),
          (''SIZE'', ''SKILL.md line count'', ''PASS'', ''4 lines''),
          (''SIZE'', ''Body word count'', ''PASS'', ''5 words''),
          (''FILES'', ''Directories'', ''INFO'', ''references''),
          (''FILES'', ''Total files'', ''INFO'', ''3''),
          (''FILES'', ''Extraneous files'', ''PASS'', ''none detected''),
          (''REFERENCES'', ''Link integrity'', ''FAIL'', ''Broken: references/missing.md''),
          (''REFERENCES'', ''Unlinked reference files'', ''WARN'', ''notes.md''),
          (''SCRIPTS'', ''Scripts directory'', ''INFO'', ''No scripts/ directory'')]"
proof -
  have l: "check_line_count links_document = (''SIZE'', ''SKILL.md line count'', ''PASS'', ''4 lines'')"
    by (simp add: check_line_count_def links_document_def links_body_def splitlines_def
        is_linebreak_def str_nat.simps digit_char_def)
  have w: "check_word_count links_body = (''SIZE'', ''Body word count'', ''PASS'', ''5 words'')"
    by (simp add: check_word_count_def links_body_def split_ws_def is_space_def
        str_nat.simps digit_char_def)
  have f: "files_checks (tree links_package) =
      [(''FILES'', ''Directories'', ''INFO'', ''references''),
       (''FILES'', ''Total files'', ''INFO'', ''3''),
       (''FILES'', ''Extraneous files'', ''PASS'', ''none detected'')]"
    by (simp add: files_checks_def links_package_def hidden_def startswith_def dirs_present_def
        path_parts_def basename_def EXTRANEOUS_def str_nat.simps digit_char_def)
  have k: "check_links (target_exists links_package) (relative_links links_body) =
      Inr (''REFERENCES'', ''Link integrity'', ''FAIL'', ''Broken: references/missing.md'')"
    by (simp add: check_links_def links_body_relative links_package_def)
  have r: "check_references (references_dir links_package) (relative_links links_body) =
      (''REFERENCES'', ''Unlinked reference files'', ''WARN'', ''notes.md'')"
    by (simp add: check_references_def links_body_relative links_package_def links_entries_def unlinked_def
        ref_files_def linked_basenames_def hidden_def startswith_def path_name_def path_parts_def)
  have s: "scripts_checks (scripts_dir links_package) =
      [(''SCRIPTS'', ''Scripts directory'', ''INFO'', ''No scripts/ directory'')]"
    by (simp add: scripts_checks_def links_package_def)
  have m: "skill_md links_package = Some links_document" by (simp add: links_package_def)
  show ?thesis
    by (simp add: analyze_skill_def m links_document_frontmatter links_document_body l w f k r s)
qed

lemma fenced_body_links:
  "extract_markdown_links (''[a](x.md) '' @ '' [c](z.md)'') = [(''a'', ''x.md''), (''c'', ''z.md'')]"
  by (simp add: extract_markdown_links_def startswith_def link_at_def)

lemma fenced_body_closing:
  "\<forall>b' a'. ''[b](y.md)'' @ FENCE @ '' [c](z.md)'' = b' @ FENCE @ a' \<longrightarrow> length ''[b](y.md)'' \<le> length b'"
proof -
  have "find_sub FENCE (''[b](y.md)'' @ FENCE @ '' [c](z.md)'') = Some (''[b](y.md)'', '' [c](z.md)'')"
    by (simp add: startswith_def)
  from find_sub_minimal [OF this] show ?thesis by blast
qed

text \<open>
  The existence test of the second link of this package raises: no record is returned.
\<close>

lemma refused_package_analysis: "analyze_skill small_loader refused_package = Inl OSError"
proof -
  let ?doc = "''See [notes](notes.md) and [long](long-name.md).'' @ [NL]"
  have c: "skill_md refused_package = Some ?doc" by (simp add: refused_package_def)
  have s: "strip_comment_lines ?doc = ?doc" by (simp add: strip_comment_lines.simps startswith_def)
  have f: "frontmatter_checks small_loader ?doc =
      Inr [(''FRONTMATTER'', ''Valid frontmatter'', ''FAIL'', ''No YAML frontmatter found'')]"
    using s by (simp add: frontmatter_checks_def parse_frontmatter_def) (simp add: startswith_def)
  have b: "body_of ?doc = ?doc"
    using s by (simp add: body_of_def match_body_def match_frontmatter_def) (simp add: startswith_def)
  have r: "relative_links ?doc = [(''notes'', ''notes.md''), (''long'', ''long-name.md'')]"
    by (simp add: relative_links_def extract_markdown_links_def link_at_def startswith_def is_external_def)
  have k: "check_links (target_exists refused_package) (relative_links ?doc) = Inl OSError"
    unfolding r by (simp add: check_links_def refused_package_def)
  show ?thesis
    unfolding analyze_skill_def c by (simp only: option.case f sum.case b Let_def k)
qed

text \<open>
  C7 (as amended).  The links are those that \<^verbatim>\<open>re.findall\<close> finds in the body after the fenced code
  blocks are cut out; the relative links are those whose href does not start with
  \<^verbatim>\<open>http://\<close>, \<^verbatim>\<open>https://\<close>, \<^verbatim>\<open>#\<close> or \<^verbatim>\<open>mailto:\<close>.  When the existence test returns
  for the href of every relative link, the link check is one record: \<^verbatim>\<open>INFO\<close> with
  \<^verbatim>\<open>No internal links found\<close> when there is no relative link, \<^verbatim>\<open>PASS\<close> with
  \<^verbatim>\<open>n/n links valid\<close> when every relative link's target exists, and otherwise one
  \<^verbatim>\<open>FAIL\<close> whose detail lists the hrefs of the broken links in the order of the links (an
  href that is linked twice is listed twice).  In a result of \<^verbatim>\<open>analyze_skill\<close> exactly
  one record of the section \<^verbatim>\<open>REFERENCES\<close> has the check name \<^verbatim>\<open>Link integrity\<close>, and it
  is that record.  A text \<^verbatim>\<open>[t](h)\<close> with no closing bracket in \<open>t\<close> and a non-empty \<open>h\<close>
  with no closing parenthesis is matched as the link \<open>(t, h)\<close>.  A fenced code block, from
  the first fence of the body to the next fence after it, is cut out: the links of the
  body are the links of the text before the block followed by the text after it, so a
  link inside the block is not a link of the body.
\<close>

theorem link_integrity_single_verdict:
  fixes body :: string and ex :: "string \<Rightarrow> py_exception + bool"
  defines "rel \<equiv> relative_links body"
  defines "broken \<equiv> filter (\<lambda>href. ex href = Inr False) (map snd rel)"
  shows "extract_markdown_links body = findall_links (remove_fences body) \<and>
    rel = filter (\<lambda>(text, href). \<not> (startswith href ''http://'' \<or> startswith href ''https://'' \<or>
                      startswith href ''#'' \<or> startswith href ''mailto:''))
            (extract_markdown_links body) \<and>
    ((\<forall>href \<in> set (map snd rel). \<exists>found. ex href = Inr found) \<longrightarrow>
     check_links ex rel =
       Inr (if rel = [] then (''REFERENCES'', ''Link integrity'', ''INFO'', ''No internal links found'')
            else if broken = [] then
              (''REFERENCES'', ''Link integrity'', ''PASS'',
               str_nat (length rel) @ ''/'' @ str_nat (length rel) @ '' links valid'')
            else (''REFERENCES'', ''Link integrity'', ''FAIL'', ''Broken: '' @ join '', '' broken))) \<and>
    (\<forall>p content safe_load rs. skill_md p = Some content \<and> analyze_skill safe_load p = Inr rs \<longrightarrow>
       (\<exists>k. check_links (target_exists p) (relative_links (body_of content)) = Inr k \<and>
            filter (\<lambda>r. check_of r = ''Link integrity'')
              (filter (\<lambda>r. section_of r = ''REFERENCES'') rs) = [k])) \<and>
    (\<forall>t h rest. CHR '']'' \<notin> set t \<and> CHR '')'' \<notin> set h \<and> h \<noteq> [] \<longrightarrow>
       link_at (''['' @ t @ '']('' @ h @ '')'' @ rest) = Some ((t, h), rest)) \<and>
    (\<forall>a x rest. CHR 0x60 \<notin> set a \<and>
         (\<forall>b' a'. x @ FENCE @ rest = b' @ FENCE @ a' \<longrightarrow> length x \<le> length b') \<longrightarrow>
       extract_markdown_links (a @ FENCE @ x @ FENCE @ rest) = extract_markdown_links (a @ rest))"
proof (intro conjI allI impI)
  show "extract_markdown_links body = findall_links (remove_fences body)"
    by (simp add: extract_markdown_links_def)
  show "rel = filter (\<lambda>(text, href). \<not> (startswith href ''http://'' \<or> startswith href ''https://'' \<or>
                      startswith href ''#'' \<or> startswith href ''mailto:''))
            (extract_markdown_links body)"
    by (simp add: rel_def relative_links_def is_external_def)
next
  assume "\<forall>href \<in> set (map snd rel). \<exists>found. ex href = Inr found"
  then show "check_links ex rel =
       Inr (if rel = [] then (''REFERENCES'', ''Link integrity'', ''INFO'', ''No internal links found'')
            else if broken = [] then
              (''REFERENCES'', ''Link integrity'', ''PASS'',
               str_nat (length rel) @ ''/'' @ str_nat (length rel) @ '' links valid'')
            else (''REFERENCES'', ''Link integrity'', ''FAIL'', ''Broken: '' @ join '', '' broken))"
    unfolding broken_def by (rule check_links_returns)
next
  fix p content safe_load rs
  assume a: "skill_md p = Some content \<and> analyze_skill safe_load p = Inr rs"
  then obtain k where k: "check_links (target_exists p) (relative_links (body_of content)) = Inr k"
    and f: "filter (\<lambda>r. section_of r = ''REFERENCES'') rs =
       [k, check_references (references_dir p) (relative_links (body_of content))]"
    using analyze_skill_references_section by blast
  have "check_of k = ''Link integrity''" using check_links_record [OF k] by simp
  moreover have "check_of (check_references (references_dir p) (relative_links (body_of content))) \<noteq> ''Link integrity''"
    by (simp add: check_references_def check_of_def split: option.splits)
  ultimately have "filter (\<lambda>r. check_of r = ''Link integrity'')
      (filter (\<lambda>r. section_of r = ''REFERENCES'') rs) = [k]"
    unfolding f by simp
  with k show "\<exists>k. check_links (target_exists p) (relative_links (body_of content)) = Inr k \<and>
            filter (\<lambda>r. check_of r = ''Link integrity'')
              (filter (\<lambda>r. section_of r = ''REFERENCES'') rs) = [k]"
    by blast
next
  fix t h rest
  assume "CHR '']'' \<notin> set t \<and> CHR '')'' \<notin> set h \<and> h \<noteq> []"
  then show "link_at (''['' @ t @ '']('' @ h @ '')'' @ rest) = Some ((t, h), rest)"
    using link_at_link by blast
next
  fix a x rest
  assume "CHR 0x60 \<notin> set a \<and>
         (\<forall>b' a'. x @ FENCE @ rest = b' @ FENCE @ a' \<longrightarrow> length x \<le> length b')"
  then show "extract_markdown_links (a @ FENCE @ x @ FENCE @ rest) = extract_markdown_links (a @ rest)"
    using extract_markdown_links_fence by blast
qed

lemma distinct_count_one: "distinct xs \<Longrightarrow> x \<in> set xs \<Longrightarrow> count_list xs x = 1"
  by (induction xs) (auto simp: count_list_0_iff)

lemma ref_files_distinct: "distinct (map fst entries) \<Longrightarrow> distinct (ref_files entries)"
  unfolding ref_files_def by (rule distinct_map_filter)

lemma references_not_external: "\<not> is_external (''references/'' @ f)"
  by (simp add: is_external_def startswith_def)

text \<open>
  C8 (as amended).  With a \<^verbatim>\<open>references/\<close> directory, the reference files are its entries that are
  files and not hidden; such a file is linked when its name is among the base names of the
  relative hrefs that start with \<^verbatim>\<open>references/\<close>, or \<^verbatim>\<open>references/<name>\<close> is among the
  relative hrefs.  The check is one record: \<^verbatim>\<open>WARN\<close> listing the files that are not
  linked, or \<^verbatim>\<open>PASS\<close> when there is none; without the directory it is one \<^verbatim>\<open>INFO\<close>
  record.  A file \<open>f\<close> for which the body has a link (outside the fenced code blocks) with
  href \<^verbatim>\<open>references/f\<close> is not listed; a reference file that is not linked is listed
  exactly once (a directory lists each name once).  The base name is the last component of
  the href: a link with more path segments before the file name, \<^verbatim>\<open>references/d/f\<close>,
  makes \<open>f\<close> linked; a link \<^verbatim>\<open>references/f\<close> followed by a suffix without a slash, such
  as \<^verbatim>\<open>?raw=1\<close> or \<^verbatim>\<open>#intro\<close>, does not: when it is the only relative link, \<open>f\<close> is
  listed.
\<close>

theorem unlinked_reference_files:
  fixes body :: string and entries :: "(string \<times> bool) list"
  defines "rel \<equiv> relative_links body"
  defines "linked \<equiv> \<lambda>f.
     f \<in> set (map path_name (filter (\<lambda>href. startswith href ''references/'') (map snd rel))) \<or>
     (''references/'' @ f) \<in> set (map snd rel)"
  shows "ref_files entries =
      map fst (filter (\<lambda>(name, is_file). is_file \<and> \<not> startswith name ''.'') entries) \<and>
    unlinked entries rel = filter (\<lambda>f. \<not> linked f) (ref_files entries) \<and>
    check_references (Some entries) rel =
      (if unlinked entries rel = [] then (''REFERENCES'', ''All references linked'', ''PASS'', [])
       else (''REFERENCES'', ''Unlinked reference files'', ''WARN'', join '', '' (unlinked entries rel))) \<and>
    check_references None rel =
      (''REFERENCES'', ''References directory'', ''INFO'', ''No references/ directory'') \<and>
    (\<forall>t f. (t, ''references/'' @ f) \<in> set (extract_markdown_links body) \<longrightarrow>
       f \<notin> set (unlinked entries rel)) \<and>
    (\<forall>f. distinct (map fst entries) \<and> f \<in> set (ref_files entries) \<and> \<not> linked f \<longrightarrow>
       count_list (unlinked entries rel) f = 1) \<and>
    (\<forall>p content safe_load rs. skill_md p = Some content \<and> analyze_skill safe_load p = Inr rs \<longrightarrow>
       drop 1 (filter (\<lambda>r. section_of r = ''REFERENCES'') rs) =
         [check_references (references_dir p) (relative_links (body_of content))]) \<and>
    (\<forall>t d f. f \<noteq> [] \<and> f \<noteq> ''.'' \<and> CHR ''/'' \<notin> set f \<and>
         (t, ''references/'' @ d @ ''/'' @ f) \<in> set (extract_markdown_links body) \<longrightarrow>
       f \<notin> set (unlinked entries rel)) \<and>
    (\<forall>t f sfx. f \<in> set (ref_files entries) \<and> f \<noteq> [] \<and> sfx \<noteq> [] \<and> CHR ''/'' \<notin> set (f @ sfx) \<longrightarrow>
       f \<in> set (unlinked entries [(t, ''references/'' @ f @ sfx)]))"
proof (intro conjI allI impI)
  show "ref_files entries =
      map fst (filter (\<lambda>(name, is_file). is_file \<and> \<not> startswith name ''.'') entries)"
    by (simp add: ref_files_def hidden_def)
  show u: "unlinked entries rel = filter (\<lambda>f. \<not> linked f) (ref_files entries)"
    by (simp add: unlinked_def linked_def linked_basenames_def)
  show "check_references (Some entries) rel =
      (if unlinked entries rel = [] then (''REFERENCES'', ''All references linked'', ''PASS'', [])
       else (''REFERENCES'', ''Unlinked reference files'', ''WARN'', join '', '' (unlinked entries rel)))"
    by (simp add: check_references_def)
  show "check_references None rel =
      (''REFERENCES'', ''References directory'', ''INFO'', ''No references/ directory'')"
    by (simp add: check_references_def)
  {
    fix t f
    assume "(t, ''references/'' @ f) \<in> set (extract_markdown_links body)"
    then have "(t, ''references/'' @ f) \<in> set rel"
      using references_not_external [of f] by (simp add: rel_def relative_links_def)
    then have "(''references/'' @ f) \<in> set (map snd rel)" by force
    then have "linked f" by (simp add: linked_def)
    then show "f \<notin> set (unlinked entries rel)" by (simp add: u)
  }
  {
    fix f
    assume a: "distinct (map fst entries) \<and> f \<in> set (ref_files entries) \<and> \<not> linked f"
    then have "distinct (unlinked entries rel)"
      unfolding u by (simp add: ref_files_distinct)
    moreover from a have "f \<in> set (unlinked entries rel)" by (simp add: u)
    ultimately show "count_list (unlinked entries rel) f = 1" by (rule distinct_count_one)
  }
  {
    fix p content safe_load rs
    assume a: "skill_md p = Some content \<and> analyze_skill safe_load p = Inr rs"
    then obtain k where "filter (\<lambda>r. section_of r = ''REFERENCES'') rs =
       [k, check_references (references_dir p) (relative_links (body_of content))]"
      using analyze_skill_references_section by blast
    then show "drop 1 (filter (\<lambda>r. section_of r = ''REFERENCES'') rs) =
         [check_references (references_dir p) (relative_links (body_of content))]"
      by simp
  }
  {
    fix t d f
    assume a: "f \<noteq> [] \<and> f \<noteq> ''.'' \<and> CHR ''/'' \<notin> set f \<and>
         (t, ''references/'' @ d @ ''/'' @ f) \<in> set (extract_markdown_links body)"
    let ?h = "''references/'' @ d @ ''/'' @ f"
    from a have "(t, ?h) \<in> set rel"
      using references_not_external [of "d @ ''/'' @ f"] by (simp add: rel_def relative_links_def)
    then have "?h \<in> set (map snd rel)" by force
    moreover have "startswith ?h ''references/''" by (simp add: startswith_def)
    moreover have "path_name ?h = f"
      using path_name_last [of f "''references/'' @ d"] a by simp
    ultimately have "f \<in> set (map path_name (filter (\<lambda>href. startswith href ''references/'') (map snd rel)))"
      by force
    then have "linked f" by (simp add: linked_def)
    then show "f \<notin> set (unlinked entries rel)" by (simp add: u)
  }
  {
    fix t f sfx
    assume a: "f \<in> set (ref_files entries) \<and> f \<noteq> [] \<and> sfx \<noteq> [] \<and> CHR ''/'' \<notin> set (f @ sfx)"
    have "f @ sfx \<noteq> ''.''"
    proof
      assume "f @ sfx = ''.''"
      then have "length (f @ sfx) = 1" by simp
      with a show False by (cases f; cases sfx) auto
    qed
    with a have "path_name (''references'' @ ''/'' @ (f @ sfx)) = f @ sfx"
      by (intro path_name_last) auto
    then have "path_name (''references/'' @ f @ sfx) = f @ sfx" by simp
    moreover have "startswith (''references/'' @ f @ sfx) ''references/''" by (simp add: startswith_def)
    ultimately have "linked_basenames [(t, ''references/'' @ f @ sfx)] = [f @ sfx]"
      by (simp add: linked_basenames_def)
    with a show "f \<in> set (unlinked entries [(t, ''references/'' @ f @ sfx)])"
      by (simp add: unlinked_def)
  }
qed

theorem link_integrity_single_verdict_witness:
  "relative_links links_body =
     [(''guide'', ''references/guide.md''), (''gone'', ''references/missing.md'')] \<and>
   check_links (\<lambda>href. Inr (href = ''references/guide.md'')) (relative_links links_body) =
     Inr (''REFERENCES'', ''Link integrity'', ''FAIL'', ''Broken: references/missing.md'') \<and>
   check_links (\<lambda>href. Inr True) (relative_links links_body) =
     Inr (''REFERENCES'', ''Link integrity'', ''PASS'', ''2/2 links valid'') \<and>
   check_links (\<lambda>href. Inr False) (relative_links ''[site](https://example.org)'') =
     Inr (''REFERENCES'', ''Link integrity'', ''INFO'', ''No internal links found'') \<and>
   skill_md links_package = Some links_document \<and>
   (\<exists>rs. analyze_skill small_loader links_package = Inr rs \<and>
      filter (\<lambda>r. check_of r = ''Link integrity'') (filter (\<lambda>r. section_of r = ''REFERENCES'') rs) =
        [(''REFERENCES'', ''Link integrity'', ''FAIL'', ''Broken: references/missing.md'')]) \<and>
   link_at ''[guide](references/guide.md), and more'' =
     Some ((''guide'', ''references/guide.md''), '', and more'') \<and>
   extract_markdown_links fenced_body = [(''a'', ''x.md''), (''c'', ''z.md'')]"
proof -
  note c = conjunct2 [THEN conjunct2, THEN conjunct1]
  note a = conjunct2 [THEN conjunct2, THEN conjunct2, THEN conjunct1]
  note l = conjunct2 [THEN conjunct2, THEN conjunct2, THEN conjunct2, THEN conjunct1]
  note g = conjunct2 [THEN conjunct2, THEN conjunct2, THEN conjunct2, THEN conjunct2]
  note t = link_integrity_single_verdict [of links_body "\<lambda>href. Inr (href = ''references/guide.md'')"]
  have r1: "\<forall>href \<in> set (map snd (relative_links links_body)).
      \<exists>found. (\<lambda>href. Inr (href = ''references/guide.md'') :: py_exception + bool) href = Inr found"
    by simp
  have 1: "check_links (\<lambda>href. Inr (href = ''references/guide.md'')) (relative_links links_body) =
     Inr (''REFERENCES'', ''Link integrity'', ''FAIL'', ''Broken: references/missing.md'')"
    using t [THEN c, THEN mp, OF r1] by (simp add: links_body_relative)
  have r2: "\<forall>href \<in> set (map snd (relative_links links_body)).
      \<exists>found. (\<lambda>href. Inr True :: py_exception + bool) href = Inr found"
    by blast
  have 2: "check_links (\<lambda>href. Inr True) (relative_links links_body) =
     Inr (''REFERENCES'', ''Link integrity'', ''PASS'', ''2/2 links valid'')"
    using link_integrity_single_verdict [of links_body "\<lambda>href. Inr True", THEN c, THEN mp, OF r2]
    by (simp add: links_body_relative str_nat.simps digit_char_def)
  have e: "relative_links ''[site](https://example.org)'' = []"
    by (simp add: relative_links_def extract_markdown_links_def link_at_def startswith_def
        is_external_def)
  have r3: "\<forall>href \<in> set (map snd (relative_links ''[site](https://example.org)'')).
      \<exists>found. (\<lambda>href. Inr False :: py_exception + bool) href = Inr found"
    by blast
  have 3: "check_links (\<lambda>href. Inr False) (relative_links ''[site](https://example.org)'') =
     Inr (''REFERENCES'', ''Link integrity'', ''INFO'', ''No internal links found'')"
    using link_integrity_single_verdict [of "''[site](https://example.org)''" "\<lambda>href. Inr False",
        THEN c, THEN mp, OF r3]
    by (simp add: e)
  have m: "skill_md links_package = Some links_document" by (simp add: links_package_def)
  obtain rs where rs: "analyze_skill small_loader links_package = Inr rs"
    using links_package_analysis by blast
  with t [THEN a] m obtain k where
    k: "check_links (target_exists links_package) (relative_links (body_of links_document)) = Inr k"
    and f: "filter (\<lambda>r. check_of r = ''Link integrity'') (filter (\<lambda>r. section_of r = ''REFERENCES'') rs) = [k]"
    by blast
  have "target_exists links_package = (\<lambda>href. Inr (href = ''references/guide.md''))"
    by (simp add: links_package_def)
  with k 1 have "k = (''REFERENCES'', ''Link integrity'', ''FAIL'', ''Broken: references/missing.md'')"
    by (simp add: links_document_body)
  with f have 4: "filter (\<lambda>r. check_of r = ''Link integrity'') (filter (\<lambda>r. section_of r = ''REFERENCES'') rs) =
      [(''REFERENCES'', ''Link integrity'', ''FAIL'', ''Broken: references/missing.md'')]"
    by simp
  have "CHR '']'' \<notin> set ''guide'' \<and> CHR '')'' \<notin> set ''references/guide.md'' \<and> ''references/guide.md'' \<noteq> []"
    by simp
  with t [THEN l] have "link_at (''['' @ ''guide'' @ '']('' @ ''references/guide.md'' @ '')'' @ '', and more'') =
      Some ((''guide'', ''references/guide.md''), '', and more'')"
    by blast
  then have 5: "link_at ''[guide](references/guide.md), and more'' =
     Some ((''guide'', ''references/guide.md''), '', and more'')"
    by simp
  from 4 rs have 6: "\<exists>rs. analyze_skill small_loader links_package = Inr rs \<and>
      filter (\<lambda>r. check_of r = ''Link integrity'') (filter (\<lambda>r. section_of r = ''REFERENCES'') rs) =
        [(''REFERENCES'', ''Link integrity'', ''FAIL'', ''Broken: references/missing.md'')]"
    by blast
  have "CHR 0x60 \<notin> set ''[a](x.md) '' \<and>
      (\<forall>b' a'. ''[b](y.md)'' @ FENCE @ '' [c](z.md)'' = b' @ FENCE @ a' \<longrightarrow> length ''[b](y.md)'' \<le> length b')"
    using fenced_body_closing by simp
  with t [THEN g] have "extract_markdown_links (''[a](x.md) '' @ FENCE @ ''[b](y.md)'' @ FENCE @ '' [c](z.md)'') =
      extract_markdown_links (''[a](x.md) '' @ '' [c](z.md)'')"
    by blast
  then have 7: "extract_markdown_links fenced_body = [(''a'', ''x.md''), (''c'', ''z.md'')]"
    by (simp only: fenced_body_def fenced_body_links)
  from links_body_relative 1 2 3 m 6 5 7 show ?thesis by (intro conjI)
qed

theorem unlinked_reference_files_witness:
  "ref_files links_entries = [''guide.md'', ''notes.md''] \<and>
   unlinked links_entries (relative_links links_body) = [''notes.md''] \<and>
   check_references (Some links_entries) (relative_links links_body) =
     (''REFERENCES'', ''Unlinked reference files'', ''WARN'', ''notes.md'') \<and>
   (''guide'', ''references/'' @ ''guide.md'') \<in> set (extract_markdown_links links_body) \<and>
   ''guide.md'' \<notin> set (unlinked links_entries (relative_links links_body)) \<and>
   distinct (map fst links_entries) \<and>
   count_list (unlinked links_entries (relative_links links_body)) ''notes.md'' = 1 \<and>
   skill_md links_package = Some links_document \<and>
   (\<exists>rs. analyze_skill small_loader links_package = Inr rs \<and>
      drop 1 (filter (\<lambda>r. section_of r = ''REFERENCES'') rs) =
        [(''REFERENCES'', ''Unlinked reference files'', ''WARN'', ''notes.md'')]) \<and>
   (''n'', ''references/'' @ ''old'' @ ''/'' @ ''notes.md'') \<in>
     set (extract_markdown_links ''[n](references/old/notes.md)'') \<and>
   ''notes.md'' \<notin> set (unlinked links_entries (relative_links ''[n](references/old/notes.md)'')) \<and>
   ''notes.md'' \<in> set (unlinked links_entries [(''n'', ''references/'' @ ''notes.md'' @ ''#intro'')])"
proof -
  note t = unlinked_reference_files [of links_entries links_body]
  note c3 = t [THEN conjunct2, THEN conjunct2, THEN conjunct1]
  note c5 = t [THEN conjunct2, THEN conjunct2, THEN conjunct2, THEN conjunct2, THEN conjunct1]
  note c6 = t [THEN conjunct2, THEN conjunct2, THEN conjunct2, THEN conjunct2, THEN conjunct2,
      THEN conjunct1]
  note c7 = t [THEN conjunct2, THEN conjunct2, THEN conjunct2, THEN conjunct2, THEN conjunct2,
      THEN conjunct2, THEN conjunct1]
  note c8 = unlinked_reference_files [of links_entries "''[n](references/old/notes.md)''",
      THEN conjunct2, THEN conjunct2, THEN conjunct2, THEN conjunct2, THEN conjunct2,
      THEN conjunct2, THEN conjunct2, THEN conjunct1]
  note c9 = t [THEN conjunct2, THEN conjunct2, THEN conjunct2, THEN conjunct2, THEN conjunct2,
      THEN conjunct2, THEN conjunct2, THEN conjunct2]
  have rf: "ref_files links_entries = [''guide.md'', ''notes.md'']"
    by (simp add: ref_files_def links_entries_def hidden_def startswith_def)
  have u: "unlinked links_entries (relative_links links_body) = [''notes.md'']"
    by (simp add: unlinked_def rf links_body_relative linked_basenames_def startswith_def
        path_name_def path_parts_def)
  have 1: "check_references (Some links_entries) (relative_links links_body) =
     (''REFERENCES'', ''Unlinked reference files'', ''WARN'', ''notes.md'')"
    using c3 by (simp add: u)
  have g: "(''guide'', ''references/'' @ ''guide.md'') \<in> set (extract_markdown_links links_body)"
    by (simp add: links_body_links)
  with c5 have 2: "''guide.md'' \<notin> set (unlinked links_entries (relative_links links_body))"
    by blast
  have d: "distinct (map fst links_entries)" by (simp add: links_entries_def)
  have "''notes.md'' \<in> set (ref_files links_entries)" by (simp add: rf)
  moreover have "\<not> (''notes.md'' \<in> set (map path_name (filter (\<lambda>href. startswith href ''references/'')
        (map snd (relative_links links_body)))) \<or>
      (''references/'' @ ''notes.md'') \<in> set (map snd (relative_links links_body)))"
    by (simp add: links_body_relative startswith_def path_name_def path_parts_def)
  ultimately have 3: "count_list (unlinked links_entries (relative_links links_body)) ''notes.md'' = 1"
    using c6 d by blast
  have m: "skill_md links_package = Some links_document" by (simp add: links_package_def)
  obtain rs where rs: "analyze_skill small_loader links_package = Inr rs"
    using links_package_analysis by blast
  with c7 m have "drop 1 (filter (\<lambda>r. section_of r = ''REFERENCES'') rs) =
      [check_references (references_dir links_package) (relative_links (body_of links_document))]"
    by blast
  then have "drop 1 (filter (\<lambda>r. section_of r = ''REFERENCES'') rs) =
      [(''REFERENCES'', ''Unlinked reference files'', ''WARN'', ''notes.md'')]"
    using 1 by (simp add: links_document_body links_package_def)
  with rs have 4: "\<exists>rs. analyze_skill small_loader links_package = Inr rs \<and>
      drop 1 (filter (\<lambda>r. section_of r = ''REFERENCES'') rs) =
        [(''REFERENCES'', ''Unlinked reference files'', ''WARN'', ''notes.md'')]"
    by blast
  have 5: "(''n'', ''references/'' @ ''old'' @ ''/'' @ ''notes.md'') \<in>
     set (extract_markdown_links ''[n](references/old/notes.md)'')"
    by (simp add: extract_markdown_links_def startswith_def link_at_def)
  have "''notes.md'' \<noteq> [] \<and> ''notes.md'' \<noteq> ''.'' \<and> CHR ''/'' \<notin> set ''notes.md'' \<and>
      (''n'', ''references/'' @ ''old'' @ ''/'' @ ''notes.md'') \<in>
        set (extract_markdown_links ''[n](references/old/notes.md)'')"
    using 5 by simp
  with c8 have 6: "''notes.md'' \<notin> set (unlinked links_entries (relative_links ''[n](references/old/notes.md)''))"
    by blast
  have "''notes.md'' \<in> set (ref_files links_entries) \<and> ''notes.md'' \<noteq> [] \<and> ''#intro'' \<noteq> [] \<and>
      CHR ''/'' \<notin> set (''notes.md'' @ ''#intro'')"
    by (simp add: rf)
  with c9 have 7: "''notes.md'' \<in> set (unlinked links_entries [(''n'', ''references/'' @ ''notes.md'' @ ''#intro'')])"
    by blast
  from rf u 1 g 2 d 3 m 4 5 6 7 show ?thesis by (intro conjI)
qed

text \<open>
  The claim as written says that the exact-path test covers links with a query-like
  suffix, and that a link anywhere in the body counts.  The file \<^verbatim>\<open>x.md\<close> linked only as
  \<^verbatim>\<open>references/x.md#intro\<close> or as \<^verbatim>\<open>references/x.md?raw=1\<close> is reported as unlinked: the
  base name of such an href is \<^verbatim>\<open>x.md#intro\<close> or \<^verbatim>\<open>x.md?raw=1\<close>, and the href is not
  \<^verbatim>\<open>references/x.md\<close>.  So is the file linked only inside a fenced code block.
\<close>

theorem unlinked_with_suffix_or_fence:
  "check_references (Some [(''x.md'', True)]) (relative_links ''See [x](references/x.md#intro).'') =
     (''REFERENCES'', ''Unlinked reference files'', ''WARN'', ''x.md'') \<and>
   check_references (Some [(''x.md'', True)]) (relative_links ''See [x](references/x.md?raw=1).'') =
     (''REFERENCES'', ''Unlinked reference files'', ''WARN'', ''x.md'') \<and>
   check_references (Some [(''x.md'', True)])
       (relative_links (FENCE @ ''[x](references/x.md)'' @ FENCE)) =
     (''REFERENCES'', ''Unlinked reference files'', ''WARN'', ''x.md'') \<and>
   check_references (Some [(''x.md'', True)]) (relative_links ''See [x](references/x.md).'') =
     (''REFERENCES'', ''All references linked'', ''PASS'', [])"
proof -
  have 1: "relative_links ''See [x](references/x.md#intro).'' = [(''x'', ''references/x.md#intro'')]"
    by (simp add: relative_links_def extract_markdown_links_def link_at_def startswith_def
        is_external_def)
  have 2: "relative_links ''See [x](references/x.md?raw=1).'' = [(''x'', ''references/x.md?raw=1'')]"
    by (simp add: relative_links_def extract_markdown_links_def link_at_def startswith_def
        is_external_def)
  have 3: "relative_links (FENCE @ ''[x](references/x.md)'' @ FENCE) = []"
    by (simp add: relative_links_def extract_markdown_links_def link_at_def startswith_def
        is_external_def)
  have 4: "relative_links ''See [x](references/x.md).'' = [(''x'', ''references/x.md'')]"
    by (simp add: relative_links_def extract_markdown_links_def link_at_def startswith_def
        is_external_def)
  show ?thesis
    unfolding 1 2 3 4
    by (simp add: check_references_def unlinked_def ref_files_def hidden_def linked_basenames_def
        startswith_def path_name_def path_parts_def)
qed

section \<open>The report\<close>

lemma report_step_lines:
  "lines (report_step st r) =
     lines st @
     (if Some (section_of r) \<noteq> current_section st
      then (if current_section st \<noteq> None then [[]] else []) @ [section_of r] else []) @
     [render_record r]"
  by (cases r) (simp add: report_step_def section_of_def render_record_def Let_def)

lemma report_step_section: "current_section (report_step st r) = Some (section_of r)"
  by (cases r) (auto simp: report_step_def section_of_def Let_def)

lemma report_step_counts:
  "pass_count (report_step st r) = pass_count st + (if status_of r = ''PASS'' then 1 else 0)"
  "warn_count (report_step st r) = warn_count st + (if status_of r = ''WARN'' then 1 else 0)"
  "fail_count (report_step st r) = fail_count st + (if status_of r = ''FAIL'' then 1 else 0)"
  by (cases r; simp add: report_step_def status_of_def Let_def)+

lemma report_loop_lines:
  "lines (foldl report_step st rs) = lines st @ emitted (current_section st) rs"
  by (induction rs arbitrary: st) (simp_all add: report_step_lines report_step_section)

lemma report_loop_counts:
  "pass_count (foldl report_step st rs) = pass_count st + count_status ''PASS'' rs"
  "warn_count (foldl report_step st rs) = warn_count st + count_status ''WARN'' rs"
  "fail_count (foldl report_step st rs) = fail_count st + count_status ''FAIL'' rs"
  by (induction rs arbitrary: st; simp add: report_step_counts count_status_def)+

lemma block_lines_Cons:
  "block_lines ((s, g) # bs) =
     (s # map render_record g) @ (if bs = [] then [] else [] # block_lines bs)"
  by (cases bs) auto

lemma emitted_runs:
  "emitted cur rs =
     (case runs rs of
        [] \<Rightarrow> []
      | (s, g) # bs \<Rightarrow>
          if cur = Some s then map render_record g @ (if bs = [] then [] else [] # block_lines bs)
          else (if cur \<noteq> None then [[]] else []) @ block_lines ((s, g) # bs))"
proof (induction rs arbitrary: cur)
  case Nil
  show ?case by simp
next
  case (Cons r rs)
  show ?case
  proof (cases "runs rs")
    case Nil
    then have "rs = []" by (cases rs) (auto split: list.splits if_splits)
    then show ?thesis by auto
  next
    case (Cons b bs)
    obtain s g where b: "b = (s, g)" by (cases b)
    from Cons.IH [of "Some (section_of r)"] Cons b
    have e: "emitted (Some (section_of r)) rs =
        (if section_of r = s then map render_record g @ (if bs = [] then [] else [] # block_lines bs)
         else [[]] @ block_lines ((s, g) # bs))"
      by simp
    show ?thesis
      using Cons b e by (auto simp: block_lines_Cons)
  qed
qed

lemma emitted_None: "emitted None rs = block_lines (runs rs)"
  by (simp add: emitted_runs split: list.splits)

lemma runs_concat: "concat (map snd (runs rs)) = rs"
  by (induction rs) (auto split: list.splits)

lemma runs_groups:
  "(s, g) \<in> set (runs rs) \<Longrightarrow> g \<noteq> [] \<and> (\<forall>r \<in> set g. section_of r = s)"
proof (induction rs arbitrary: s g)
  case Nil
  then show ?case by simp
next
  case (Cons r rs)
  show ?case
  proof (cases "runs rs")
    case Nil
    with Cons.prems show ?thesis by simp
  next
    case (Cons b bs)
    obtain s' g' where b: "b = (s', g')" by (cases b)
    with Cons have "(s', g') \<in> set (runs rs)" by simp
    then have h: "g' \<noteq> [] \<and> (\<forall>r \<in> set g'. section_of r = s')" by (rule Cons.IH)
    show ?thesis
    proof (cases "section_of r = s'")
      case True
      with Cons.prems Cons b have "(s, g) = (s', r # g') \<or> (s, g) \<in> set bs" by simp
      then show ?thesis
      proof
        assume "(s, g) = (s', r # g')"
        with h True show ?thesis by auto
      next
        assume "(s, g) \<in> set bs"
        with Cons have "(s, g) \<in> set (runs rs)" by simp
        then show ?thesis by (rule Cons.IH)
      qed
    next
      case False
      with Cons.prems Cons b have "(s, g) = (section_of r, [r]) \<or> (s, g) \<in> set (runs rs)" by auto
      then show ?thesis
      proof
        assume "(s, g) = (section_of r, [r])"
        then show ?thesis by simp
      next
        assume "(s, g) \<in> set (runs rs)"
        then show ?thesis by (rule Cons.IH)
      qed
    qed
  qed
qed

lemma set_first_seen: "set (first_seen xs) = set xs"
  by (induction xs) auto

lemma first_seen_block:
  "xs \<noteq> [] \<Longrightarrow> \<forall>x \<in> set xs. x = s \<Longrightarrow>
     first_seen (xs @ ys) = s # filter (\<lambda>y. y \<noteq> s) (first_seen ys)"
proof (induction xs)
  case Nil
  then show ?case by simp
next
  case (Cons x xs)
  then show ?case by (cases "xs = []") auto
qed

lemma group_of_blocks:
  assumes "\<forall>(s, g) \<in> set bs. g \<noteq> [] \<and> (\<forall>r \<in> set g. section_of r = s)"
    and "distinct (map fst bs)"
  shows "group_by_section (concat (map snd bs)) = bs"
  using assms
proof (induction bs)
  case Nil
  show ?case by (simp add: group_by_section_def)
next
  case (Cons b bs)
  obtain s g where b: "b = (s, g)" by (cases b)
  let ?rest = "concat (map snd bs)"
  from Cons.prems b have g: "g \<noteq> []" "\<forall>r \<in> set g. section_of r = s" by auto
  from Cons.prems b have notin: "s \<notin> fst ` set bs" by auto
  have rest_sections: "\<forall>r \<in> set ?rest. section_of r \<in> fst ` set bs"
  proof
    fix r assume "r \<in> set ?rest"
    then obtain k h where kh: "(k, h) \<in> set bs" and r: "r \<in> set h" by auto
    with Cons.prems(1) have "section_of r = k" by auto
    with kh show "section_of r \<in> fst ` set bs" by force
  qed
  with notin have no_s: "\<forall>r \<in> set ?rest. section_of r \<noteq> s" by auto
  have fs: "first_seen (map section_of (g @ ?rest)) = s # first_seen (map section_of ?rest)"
  proof -
    have n: "map section_of g \<noteq> []" using g(1) by simp
    have a: "\<forall>x \<in> set (map section_of g). x = s" using g(2) by simp
    have "first_seen (map section_of g @ map section_of ?rest) =
        s # filter (\<lambda>y. y \<noteq> s) (first_seen (map section_of ?rest))"
      using n a by (rule first_seen_block)
    moreover have "\<forall>y \<in> set (first_seen (map section_of ?rest)). y \<noteq> s"
      unfolding set_first_seen using no_s by simp
    then have "filter (\<lambda>y. y \<noteq> s) (first_seen (map section_of ?rest)) = first_seen (map section_of ?rest)"
      by (rule filter_True)
    ultimately show ?thesis by simp
  qed
  have "filter (\<lambda>r. section_of r = s) g = g" using g(2) by (rule filter_True)
  moreover have "filter (\<lambda>r. section_of r = s) ?rest = []"
    unfolding filter_empty_conv using no_s by blast
  ultimately have f1: "filter (\<lambda>r. section_of r = s) (g @ ?rest) = g" by simp
  have f2: "map (\<lambda>k. (k, filter (\<lambda>r. section_of r = k) (g @ ?rest))) (first_seen (map section_of ?rest)) =
      map (\<lambda>k. (k, filter (\<lambda>r. section_of r = k) ?rest)) (first_seen (map section_of ?rest))"
  proof (rule map_cong [OF refl])
    fix k assume "k \<in> set (first_seen (map section_of ?rest))"
    then have "k \<in> set (map section_of ?rest)" by (simp only: set_first_seen)
    then have "k \<noteq> s" using no_s by auto
    with g(2) have "\<forall>r \<in> set g. \<not> section_of r = k" by simp
    then have "filter (\<lambda>r. section_of r = k) g = []" unfolding filter_empty_conv by blast
    then show "(k, filter (\<lambda>r. section_of r = k) (g @ ?rest)) = (k, filter (\<lambda>r. section_of r = k) ?rest)"
      by simp
  qed
  from Cons.IH Cons.prems have ih: "group_by_section ?rest = bs" by simp
  have "group_by_section (g @ ?rest) =
      (s, filter (\<lambda>r. section_of r = s) (g @ ?rest)) #
      map (\<lambda>k. (k, filter (\<lambda>r. section_of r = k) (g @ ?rest))) (first_seen (map section_of ?rest))"
    unfolding group_by_section_def fs by simp
  also have "\<dots> = (s, g) # group_by_section ?rest"
    unfolding f1 f2 group_by_section_def by simp
  finally show ?case using ih b by simp
qed

lemma runs_contiguous:
  assumes "distinct (map fst (runs rs))"
  shows "runs rs = group_by_section rs"
proof -
  have "group_by_section (concat (map snd (runs rs))) = runs rs"
    using assms by (intro group_of_blocks) (auto dest: runs_groups)
  then show ?thesis by (simp add: runs_concat)
qed

lemma format_report_lines:
  "format_report skill_path rs =
     join [NL] ([''=== Skill Analysis: '' @ path_name skill_path @ '' ==='', []] @
                block_lines (runs rs) @
                [[], ''SUMMARY: '' @ str_nat (count_status ''FAIL'' rs) @ '' FAIL, '' @
                     str_nat (count_status ''WARN'' rs) @ '' WARN, '' @
                     str_nat (count_status ''PASS'' rs) @ '' PASS''])"
  by (simp add: format_report_def Let_def report_loop_lines report_loop_counts emitted_None
      summary_line_def)

lemma runs_block:
  assumes "xs \<noteq> []" and "\<forall>r \<in> set xs. section_of r = s"
    and "case runs ys of [] \<Rightarrow> True | b # bs \<Rightarrow> fst b \<noteq> s"
  shows "runs (xs @ ys) = (s, xs) # runs ys"
  using assms(1,2)
proof (induction xs rule: list_nonempty_induct)
  case (single x)
  with assms(3) show ?case by (auto split: list.splits)
next
  case (cons x xs)
  then show ?case by simp
qed

lemma frontmatter_checks_nonempty: "frontmatter_checks safe_load content = Inr rs \<Longrightarrow> rs \<noteq> []"
  by (auto simp: frontmatter_checks_def field_checks_def
      split: sum.splits option.splits if_splits prod.splits)

lemma files_checks_three: "\<exists>a b c. files_checks t = [a, b, c]"
  by (simp add: files_checks_def Let_def)

lemma scripts_checks_nonempty: "scripts_checks sd \<noteq> []"
  by (simp add: scripts_checks_def Let_def split: option.splits)

lemma analyze_skill_runs:
  assumes "skill_md p = Some content" and "analyze_skill safe_load p = Inr rs"
  shows "\<exists>fm_records k. frontmatter_checks safe_load content = Inr fm_records \<and>
     check_links (target_exists p) (relative_links (body_of content)) = Inr k \<and>
     runs rs =
       [(''STRUCTURE'', [(''STRUCTURE'', ''SKILL.md exists'', ''PASS'', [])]),
        (''FRONTMATTER'', fm_records),
        (''SIZE'', [check_line_count content, check_word_count (body_of content)]),
        (''FILES'', files_checks (tree p)),
        (''REFERENCES'', [k, check_references (references_dir p) (relative_links (body_of content))]),
        (''SCRIPTS'', scripts_checks (scripts_dir p))]"
proof -
  let ?st = "[(''STRUCTURE'', ''SKILL.md exists'', ''PASS'', [])] :: check_record list"
  let ?size = "[check_line_count content, check_word_count (body_of content)]"
  from analyze_skill_records [OF assms] obtain fm_records k where
    f: "frontmatter_checks safe_load content = Inr fm_records" and
    k: "check_links (target_exists p) (relative_links (body_of content)) = Inr k" and
    rs': "rs = ?st @ fm_records @ ?size @ files_checks (tree p) @
      [k, check_references (references_dir p) (relative_links (body_of content))] @
      scripts_checks (scripts_dir p)"
    by blast
  let ?refs = "[k, check_references (references_dir p) (relative_links (body_of content))]"
  note rs = rs'
  have ks: "section_of k = ''REFERENCES''" using check_links_record [OF k] by simp
  have 6: "runs (scripts_checks (scripts_dir p) @ []) = (''SCRIPTS'', scripts_checks (scripts_dir p)) # runs []"
    by (rule runs_block) (auto simp: scripts_checks_nonempty dest: scripts_checks_sections)
  have 5: "runs (?refs @ scripts_checks (scripts_dir p)) =
      (''REFERENCES'', ?refs) # runs (scripts_checks (scripts_dir p))"
    by (rule runs_block) (use 6 in \<open>auto simp: ks check_references_section\<close>)
  have 4: "runs (files_checks (tree p) @ ?refs @ scripts_checks (scripts_dir p)) =
      (''FILES'', files_checks (tree p)) # runs (?refs @ scripts_checks (scripts_dir p))"
  proof (rule runs_block)
    show "files_checks (tree p) \<noteq> []" using files_checks_three [of "tree p"] by auto
    show "\<forall>r \<in> set (files_checks (tree p)). section_of r = ''FILES''"
      by (auto dest: files_checks_sections)
    show "case runs (?refs @ scripts_checks (scripts_dir p)) of [] \<Rightarrow> True | b # bs \<Rightarrow> fst b \<noteq> ''FILES''"
      unfolding 5 by simp
  qed
  have s: "section_of (check_line_count content) = ''SIZE''"
    "section_of (check_word_count (body_of content)) = ''SIZE''"
    by (simp_all add: check_line_count_def check_word_count_def section_of_def Let_def)
  have 3: "runs (?size @ files_checks (tree p) @ ?refs @ scripts_checks (scripts_dir p)) =
      (''SIZE'', ?size) # runs (files_checks (tree p) @ ?refs @ scripts_checks (scripts_dir p))"
  proof (rule runs_block)
    show "?size \<noteq> []" by simp
    show "\<forall>r \<in> set ?size. section_of r = ''SIZE''" using s by simp
    show "case runs (files_checks (tree p) @ ?refs @ scripts_checks (scripts_dir p)) of
        [] \<Rightarrow> True | b # bs \<Rightarrow> fst b \<noteq> ''SIZE''"
      unfolding 4 by simp
  qed
  have 2: "runs (fm_records @ ?size @ files_checks (tree p) @ ?refs @ scripts_checks (scripts_dir p)) =
      (''FRONTMATTER'', fm_records) #
      runs (?size @ files_checks (tree p) @ ?refs @ scripts_checks (scripts_dir p))"
  proof (rule runs_block)
    show "fm_records \<noteq> []" using f by (rule frontmatter_checks_nonempty)
    show "\<forall>r \<in> set fm_records. section_of r = ''FRONTMATTER''"
      using frontmatter_checks_sections [OF f] by blast
    show "case runs (?size @ files_checks (tree p) @ ?refs @ scripts_checks (scripts_dir p)) of
        [] \<Rightarrow> True | b # bs \<Rightarrow> fst b \<noteq> ''FRONTMATTER''"
      unfolding 3 by simp
  qed
  have 1: "runs (?st @ fm_records @ ?size @ files_checks (tree p) @ ?refs @ scripts_checks (scripts_dir p)) =
      (''STRUCTURE'', ?st) #
      runs (fm_records @ ?size @ files_checks (tree p) @ ?refs @ scripts_checks (scripts_dir p))"
  proof (rule runs_block)
    show "?st \<noteq> []" by simp
    show "\<forall>r \<in> set ?st. section_of r = ''STRUCTURE''" by (simp add: section_of_def)
    show "case runs (fm_records @ ?size @ files_checks (tree p) @ ?refs @ scripts_checks (scripts_dir p)) of
        [] \<Rightarrow> True | b # bs \<Rightarrow> fst b \<noteq> ''STRUCTURE''"
      unfolding 2 by simp
  qed
  have "runs rs =
       [(''STRUCTURE'', ?st), (''FRONTMATTER'', fm_records), (''SIZE'', ?size),
        (''FILES'', files_checks (tree p)), (''REFERENCES'', ?refs),
        (''SCRIPTS'', scripts_checks (scripts_dir p))]"
    unfolding rs 1 2 3 4 5 using 6 by simp
  with f k show ?thesis by blast
qed

lemma analyze_skill_contiguous:
  assumes "analyze_skill safe_load p = Inr rs"
  shows "distinct (map fst (runs rs))"
proof (cases "skill_md p")
  case None
  with assms have "rs = [(''STRUCTURE'', ''SKILL.md exists'', ''FAIL'', ''SKILL.md not found'')]"
    by (simp add: analyze_skill_def)
  then show ?thesis by simp
next
  case (Some content)
  from analyze_skill_runs [OF Some assms] obtain fm_records k where
    "runs rs =
       [(''STRUCTURE'', [(''STRUCTURE'', ''SKILL.md exists'', ''PASS'', [])]),
        (''FRONTMATTER'', fm_records),
        (''SIZE'', [check_line_count content, check_word_count (body_of content)]),
        (''FILES'', files_checks (tree p)),
        (''REFERENCES'', [k, check_references (references_dir p) (relative_links (body_of content))]),
        (''SCRIPTS'', scripts_checks (scripts_dir p))]"
    by blast
  then show ?thesis by simp
qed

text \<open>
  C9 (as amended).  The report depends on the path (for the title) and on the record list
  only.  It has one block per run of consecutive records with the same section, in the
  order of the list, the records of a run in their order: a new block starts whenever the
  section of a record differs from the section of the record before it.  The summary line
  counts the records whose status is \<^verbatim>\<open>FAIL\<close>, \<^verbatim>\<open>WARN\<close> and \<^verbatim>\<open>PASS\<close>; \<^verbatim>\<open>INFO\<close> is not
  counted.  When no two runs have the same section, the runs are the groups of the
  specification: the sections in first-seen order, each with all its records in emission
  order.  Every list that \<^verbatim>\<open>analyze_skill\<close> returns is such a list.
\<close>

theorem format_report_blocks:
  "format_report skill_path rs =
     join [NL] ([''=== Skill Analysis: '' @ path_name skill_path @ '' ==='', []] @
                block_lines (runs rs) @
                [[], ''SUMMARY: '' @ str_nat (length (filter (\<lambda>r. status_of r = ''FAIL'') rs)) @ '' FAIL, '' @
                     str_nat (length (filter (\<lambda>r. status_of r = ''WARN'') rs)) @ '' WARN, '' @
                     str_nat (length (filter (\<lambda>r. status_of r = ''PASS'') rs)) @ '' PASS'']) \<and>
   concat (map snd (runs rs)) = rs \<and>
   (distinct (map fst (runs rs)) \<longrightarrow> runs rs = group_by_section rs) \<and>
   (\<forall>safe_load p. analyze_skill safe_load p = Inr rs \<longrightarrow> runs rs = group_by_section rs)"
proof (intro conjI allI impI)
  show "format_report skill_path rs =
     join [NL] ([''=== Skill Analysis: '' @ path_name skill_path @ '' ==='', []] @
                block_lines (runs rs) @
                [[], ''SUMMARY: '' @ str_nat (length (filter (\<lambda>r. status_of r = ''FAIL'') rs)) @ '' FAIL, '' @
                     str_nat (length (filter (\<lambda>r. status_of r = ''WARN'') rs)) @ '' WARN, '' @
                     str_nat (length (filter (\<lambda>r. status_of r = ''PASS'') rs)) @ '' PASS''])"
    using format_report_lines [of skill_path rs] by (simp only: count_status_def)
  show "concat (map snd (runs rs)) = rs" by (rule runs_concat)
next
  assume "distinct (map fst (runs rs))"
  then show "runs rs = group_by_section rs" by (rule runs_contiguous)
next
  fix safe_load p
  assume "analyze_skill safe_load p = Inr rs"
  then have "distinct (map fst (runs rs))" by (rule analyze_skill_contiguous)
  then show "runs rs = group_by_section rs" by (rule runs_contiguous)
qed

lemma str_nat_small: "str_nat 0 = ''0''" "str_nat (Suc 0) = ''1''" "str_nat 2 = ''2''" "str_nat 3 = ''3''"
  by (simp_all add: str_nat_digit digit_char_def)

theorem format_report_blocks_witness:
  "runs grouped_records =
     [(''SIZE'', [(''SIZE'', ''SKILL.md line count'', ''PASS'', ''12 lines''),
                  (''SIZE'', ''Body word count'', ''WARN'', ''6000 words (recommend <= 5000)'')]),
      (''FILES'', [(''FILES'', ''Total files'', ''INFO'', ''3'')])] \<and>
   distinct (map fst (runs grouped_records)) \<and>
   group_by_section grouped_records = runs grouped_records \<and>
   format_report ''skills/my-skill'' grouped_records =
     join [NL] [''=== Skill Analysis: my-skill ==='', [],
                ''SIZE'',
                ''  SKILL.md line count: PASS: 12 lines'',
                ''  Body word count: WARN: 6000 words (recommend <= 5000)'',
                [],
                ''FILES'',
                ''  Total files: INFO: 3'',
                [],
                ''SUMMARY: 0 FAIL, 1 WARN, 1 PASS''] \<and>
   (\<exists>rs. analyze_skill small_loader links_package = Inr rs \<and> runs rs = group_by_section rs)"
proof -
  note t = format_report_blocks [of "''skills/my-skill''" grouped_records]
  have r: "runs grouped_records =
     [(''SIZE'', [(''SIZE'', ''SKILL.md line count'', ''PASS'', ''12 lines''),
                  (''SIZE'', ''Body word count'', ''WARN'', ''6000 words (recommend <= 5000)'')]),
      (''FILES'', [(''FILES'', ''Total files'', ''INFO'', ''3'')])]"
    by (simp add: grouped_records_def section_of_def)
  have d: "distinct (map fst (runs grouped_records))" by (simp add: r)
  with t have g: "group_by_section grouped_records = runs grouped_records" by simp
  have n: "path_name ''skills/my-skill'' = ''my-skill''"
    by (simp add: path_name_def path_parts_def)
  have c: "length (filter (\<lambda>r. status_of r = ''FAIL'') grouped_records) = 0"
    "length (filter (\<lambda>r. status_of r = ''WARN'') grouped_records) = Suc 0"
    "length (filter (\<lambda>r. status_of r = ''PASS'') grouped_records) = Suc 0"
    by (simp_all add: grouped_records_def status_of_def)
  have f: "format_report ''skills/my-skill'' grouped_records =
     join [NL] [''=== Skill Analysis: my-skill ==='', [],
                ''SIZE'',
                ''  SKILL.md line count: PASS: 12 lines'',
                ''  Body word count: WARN: 6000 words (recommend <= 5000)'',
                [],
                ''FILES'',
                ''  Total files: INFO: 3'',
                [],
                ''SUMMARY: 0 FAIL, 1 WARN, 1 PASS'']"
    unfolding t [THEN conjunct1] r n c by (simp add: render_record_def str_nat_small)
  obtain rs where rs: "analyze_skill small_loader links_package = Inr rs"
    using links_package_analysis by blast
  with format_report_blocks [of "''skills/my-skill''" rs] have "runs rs = group_by_section rs"
    by blast
  with rs have a: "\<exists>rs. analyze_skill small_loader links_package = Inr rs \<and> runs rs = group_by_section rs"
    by blast
  from r d g f a show ?thesis by (intro conjI)
qed

text \<open>
  The claim as written covers lists in which the records of a section are not contiguous.
  For such a list the report has a block for each run, so a section appears twice.
\<close>

theorem format_report_repeats_section:
  "format_report ''skills/my-skill'' interleaved_records =
     join [NL] [''=== Skill Analysis: my-skill ==='', [],
                ''SIZE'',
                ''  SKILL.md line count: PASS: 12 lines'',
                [],
                ''FILES'',
                ''  Total files: INFO: 3'',
                [],
                ''SIZE'',
                ''  Body word count: WARN: 6000 words (recommend <= 5000)'',
                [],
                ''SUMMARY: 0 FAIL, 1 WARN, 1 PASS''] \<and>
   map fst (runs interleaved_records) = [''SIZE'', ''FILES'', ''SIZE''] \<and>
   map fst (group_by_section interleaved_records) = [''SIZE'', ''FILES'']"
  by (simp add: format_report_def report_step_def summary_line_def interleaved_records_def
      path_name_def path_parts_def str_nat_small group_by_section_def section_of_def)

section \<open>The checks that run when \<^verbatim>\<open>SKILL.md\<close> exists\<close>

lemma parse_frontmatter_error_nonempty:
  "parse_frontmatter safe_load content = Inr (fm, Some err) \<Longrightarrow> err \<noteq> [] \<and> fm = None"
  by (auto simp: parse_frontmatter_def Let_def
      split: if_splits option.splits load_result.splits yaml.splits)


lemma check_unexpected_raises:
  "str_items (unexpected_keys fm) = None \<Longrightarrow> check_unexpected fm = Inl TypeError"
  by (auto simp: check_unexpected_def Let_def)






















text \<open>
  A key of the front matter that is not a string, as in \<^verbatim>\<open>1: one\<close>, is an unexpected key;
  joining the unexpected keys then raises \<^verbatim>\<open>TypeError\<close>, which leaves \<^verbatim>\<open>analyze_skill\<close>.
\<close>

lemma numeric_key_raises: "check_unexpected [(YInt 1, YStr ''one'')] = Inl TypeError"
  by (simp add: check_unexpected_def unexpected_keys_def ALLOWED_def)

text \<open>
  The claim as written gives the detail of the \<^verbatim>\<open>INFO\<close> record as
  \<^verbatim>\<open>no internal links found\<close>; the code writes \<^verbatim>\<open>No internal links found\<close>.  An href
  that two broken links share is listed for each of them.
\<close>

theorem check_links_messages:
  "check_links (\<lambda>href. Inr False) (relative_links ''[site](https://example.org)'') =
     Inr (''REFERENCES'', ''Link integrity'', ''INFO'', ''No internal links found'') \<and>
   detail_of (''REFERENCES'', ''Link integrity'', ''INFO'', ''No internal links found'') \<noteq>
     ''no internal links found'' \<and>
   check_links (\<lambda>href. Inr False) (relative_links ''[a](x.md) and [b](x.md)'') =
     Inr (''REFERENCES'', ''Link integrity'', ''FAIL'', ''Broken: x.md, x.md'')"
proof -
  have e: "relative_links ''[site](https://example.org)'' = []"
    by (simp add: relative_links_def extract_markdown_links_def link_at_def startswith_def
        is_external_def)
  have d: "relative_links ''[a](x.md) and [b](x.md)'' = [(''a'', ''x.md''), (''b'', ''x.md'')]"
    by (simp add: relative_links_def extract_markdown_links_def link_at_def startswith_def
        is_external_def)
  show ?thesis unfolding e d by (simp add: check_links_def detail_of_def)
qed

end
